theory Spec2Isabelle
  imports Main "HOL-Library.Monad_Syntax"
begin

section \<open>Data model\<close>

text \<open>
  The normalizer works on \<^verbatim>\<open>[][]string\<close>: a table is a list of rows, a row a list of
  cells, and a cell a Go string, that is a sequence of bytes (not necessarily valid UTF-8).
  The first row of a non-empty table is the header.
\<close>

type_synonym row = "string list"
type_synonym table = "row list"

text \<open>The \<^verbatim>\<open>fmt.Errorf\<close> values a stage can return, with the message of the source.\<close>

datatype error = ColumnNotFound string | TzLoadFailed string

text \<open>
  The lines a stage prints on the error stream, one constructor per \<^verbatim>\<open>Fprintf\<close> of the
  source, carrying the value that is printed.
\<close>

datatype warning =
    BadTimestamp string
  | InvalidZIP string
  | InvalidAddress string
  | BadFooDuration string
  | BadBarDuration string
  | BadTotalDuration row
  | NotesCleanFailed

text \<open>
  A stage returns \<^verbatim>\<open>(table, nil)\<close>, returns \<^verbatim>\<open>(nil, err)\<close>, or does not return because an
  index expression panics. The warnings printed on the way are part of the result.
\<close>

datatype outcome = Ok table "warning list" | Err error | Panic

section \<open>Go library functions used by the stages\<close>

subsection \<open>\<^verbatim>\<open>unicode/utf8\<close>\<close>

definition RuneError :: nat where
  "RuneError = 0xFFFD"

text \<open>
  \<^verbatim>\<open>utf8.DecodeRuneInString\<close>: the rune at the front of the string and its width in bytes.
  The empty string gives \<open>(RuneError, 0)\<close>, an ill-formed front gives \<open>(RuneError, 1)\<close>.
  The second byte is restricted by the first one (no overlong forms, no surrogates, nothing
  above U+10FFFF); later bytes are continuation bytes.
\<close>

definition is_cont :: "char \<Rightarrow> bool" where
  "is_cont c \<longleftrightarrow> 0x80 \<le> (of_char c :: nat) \<and> (of_char c :: nat) \<le> 0xBF"

definition second_range :: "nat \<Rightarrow> nat \<times> nat" where
  "second_range b0 =
     (if b0 = 0xE0 then (0xA0, 0xBF)
      else if b0 = 0xED then (0x80, 0x9F)
      else if b0 = 0xF0 then (0x90, 0xBF)
      else if b0 = 0xF4 then (0x80, 0x8F)
      else (0x80, 0xBF))"

definition second_ok :: "nat \<Rightarrow> char \<Rightarrow> bool" where
  "second_ok b0 c \<longleftrightarrow>
     fst (second_range b0) \<le> (of_char c :: nat) \<and> (of_char c :: nat) \<le> snd (second_range b0)"

fun DecodeRune :: "string \<Rightarrow> nat \<times> nat" where
  "DecodeRune [] = (RuneError, 0)"
| "DecodeRune (c0 # cs) =
     (let b0 = (of_char c0 :: nat) in
      if b0 < 0x80 then (b0, 1)
      else if 0xC2 \<le> b0 \<and> b0 \<le> 0xDF then
        (case cs of
           c1 # _ \<Rightarrow>
             if second_ok b0 c1 then ((b0 mod 0x20) * 0x40 + of_char c1 mod 0x40, 2)
             else (RuneError, 1)
         | _ \<Rightarrow> (RuneError, 1))
      else if 0xE0 \<le> b0 \<and> b0 \<le> 0xEF then
        (case cs of
           c1 # c2 # _ \<Rightarrow>
             if second_ok b0 c1 \<and> is_cont c2
             then ((b0 mod 0x10) * 0x1000 + (of_char c1 mod 0x40) * 0x40 + of_char c2 mod 0x40, 3)
             else (RuneError, 1)
         | _ \<Rightarrow> (RuneError, 1))
      else if 0xF0 \<le> b0 \<and> b0 \<le> 0xF4 then
        (case cs of
           c1 # c2 # c3 # _ \<Rightarrow>
             if second_ok b0 c1 \<and> is_cont c2 \<and> is_cont c3
             then ((b0 mod 0x08) * 0x40000 + (of_char c1 mod 0x40) * 0x1000
                     + (of_char c2 mod 0x40) * 0x40 + of_char c3 mod 0x40, 4)
             else (RuneError, 1)
         | _ \<Rightarrow> (RuneError, 1))
      else (RuneError, 1))"

text \<open>
  A front is well formed when it decodes to something other than the one-byte error: the
  encoding of U+FFFD itself is three bytes wide.
\<close>

definition front_ok :: "string \<Rightarrow> bool" where
  "front_ok s \<longleftrightarrow> \<not> (fst (DecodeRune s) = RuneError \<and> snd (DecodeRune s) = 1)"

lemma DecodeRune_width_pos: "s \<noteq> [] \<Longrightarrow> 0 < snd (DecodeRune s)"
  by (cases s) (simp_all add: Let_def split: list.splits)

lemma DecodeRune_width_le: "snd (DecodeRune s) \<le> length s"
  by (cases s) (simp_all add: Let_def split: list.splits)

text \<open>
  The decoding loop shared by \<^verbatim>\<open>for _, r := range s\<close> and the library functions below:
  the runes of a string from left to right, each with the bytes it was read from. An
  ill-formed byte is a rune \<open>RuneError\<close> of width one.
\<close>

function runes :: "string \<Rightarrow> (nat \<times> string) list" where
  "runes s =
     (if s = [] then []
      else (fst (DecodeRune s), take (snd (DecodeRune s)) s)
             # runes (drop (snd (DecodeRune s)) s))"
  by pat_completeness auto
termination
  by (relation "measure length") (simp_all add: DecodeRune_width_pos)

declare runes.simps [simp del]

text \<open>\<^verbatim>\<open>utf8.ValidString\<close>: every rune of the string is read from a well-formed front.\<close>

definition ValidString :: "string \<Rightarrow> bool" where
  "ValidString s \<longleftrightarrow> list_all (\<lambda>(r, bs). front_ok bs) (runes s)"

text \<open>
  \<^verbatim>\<open>utf8.EncodeRune\<close> (through \<^verbatim>\<open>strings.Builder.WriteRune\<close>): surrogates and values
  above U+10FFFF are written as U+FFFD.
\<close>

definition EncodeRune :: "nat \<Rightarrow> string" where
  "EncodeRune r =
     (if r < 0x80 then [char_of r]
      else if r < 0x800 then [char_of (0xC0 + r div 0x40), char_of (0x80 + r mod 0x40)]
      else if (0xD800 \<le> r \<and> r \<le> 0xDFFF) \<or> 0x10FFFF < r then
        [CHR 0xEF, CHR 0xBF, CHR 0xBD]
      else if r < 0x10000 then
        [char_of (0xE0 + r div 0x1000), char_of (0x80 + (r div 0x40) mod 0x40),
         char_of (0x80 + r mod 0x40)]
      else
        [char_of (0xF0 + r div 0x40000), char_of (0x80 + (r div 0x1000) mod 0x40),
         char_of (0x80 + (r div 0x40) mod 0x40), char_of (0x80 + r mod 0x40)])"

subsection \<open>\<^verbatim>\<open>unicode\<close> and \<^verbatim>\<open>strings\<close>\<close>

text \<open>\<^verbatim>\<open>unicode.IsSpace\<close>: the Latin-1 spaces and the other runes with the property White Space.\<close>

definition IsSpace :: "nat \<Rightarrow> bool" where
  "IsSpace r \<longleftrightarrow>
     (0x09 \<le> r \<and> r \<le> 0x0D) \<or> r = 0x20 \<or> r = 0x85 \<or> r = 0xA0 \<or> r = 0x1680
     \<or> (0x2000 \<le> r \<and> r \<le> 0x200A) \<or> r = 0x2028 \<or> r = 0x2029 \<or> r = 0x202F
     \<or> r = 0x205F \<or> r = 0x3000"

definition space_rune :: "nat \<times> string \<Rightarrow> bool" where
  "space_rune rb \<longleftrightarrow> IsSpace (fst rb)"

text \<open>
  \<^verbatim>\<open>strings.TrimSpace\<close>: the string without its leading and trailing white-space runes.
  The library scans bytes while they are ASCII and runes otherwise, from both ends; an
  ASCII byte is always a rune of its own, and a well-formed encoding at the end of a string
  is also a rune of the left-to-right decoding, so both scans agree with the rune list.
\<close>

definition TrimSpace :: "string \<Rightarrow> string" where
  "TrimSpace s =
     concat (map snd (rev (dropWhile space_rune (rev (dropWhile space_rune (runes s))))))"

text \<open>
  \<^verbatim>\<open>strings.Fields\<close>: the maximal runs of runes that are not white space. The first
  argument of the loop is the field being collected.
\<close>

fun fields_loop :: "string \<Rightarrow> (nat \<times> string) list \<Rightarrow> string list" where
  "fields_loop cur [] = (if cur = [] then [] else [cur])"
| "fields_loop cur (rb # rbs) =
     (if space_rune rb
      then (if cur = [] then fields_loop [] rbs else cur # fields_loop [] rbs)
      else fields_loop (cur @ snd rb) rbs)"

definition Fields :: "string \<Rightarrow> string list" where
  "Fields s = fields_loop [] (runes s)"

text \<open>\<^verbatim>\<open>strings.Join\<close>.\<close>

fun Join :: "string list \<Rightarrow> string \<Rightarrow> string" where
  "Join [] sep = []"
| "Join [p] sep = p"
| "Join (p # q # ps) sep = p @ sep @ Join (q # ps) sep"

text \<open>
  \<^verbatim>\<open>strings.Split\<close> with a one-byte separator: the pieces between the occurrences of the
  separator, so one piece more than there are separators.
\<close>

fun split_loop :: "char \<Rightarrow> string \<Rightarrow> string \<Rightarrow> string list" where
  "split_loop sep cur [] = [cur]"
| "split_loop sep cur (c # cs) =
     (if c = sep then cur # split_loop sep [] cs else split_loop sep (cur @ [c]) cs)"

definition Split :: "string \<Rightarrow> char \<Rightarrow> string list" where
  "Split s sep = split_loop sep [] s"

text \<open>
  \<^verbatim>\<open>strings.ToUpper\<close>. A string of ASCII bytes is mapped byte by byte. Any other string
  goes through \<^verbatim>\<open>strings.Map(unicode.ToUpper, s)\<close>: every rune of the decoding loop is
  mapped and written back encoded, so an ill-formed byte comes out as the three bytes of
  U+FFFD. The case table of the Unicode database for the runes from \<open>0x80\<close> on is not part
  of the repository and is the parameter \<open>tbl\<close>.
\<close>

definition ascii_upper :: "nat \<Rightarrow> nat" where
  "ascii_upper r = (if 0x61 \<le> r \<and> r \<le> 0x7A then r - 0x20 else r)"

definition unicode_ToUpper :: "(nat \<Rightarrow> nat) \<Rightarrow> nat \<Rightarrow> nat" where
  "unicode_ToUpper tbl r = (if r < 0x80 then ascii_upper r else tbl r)"

definition is_ascii :: "string \<Rightarrow> bool" where
  "is_ascii s \<longleftrightarrow> list_all (\<lambda>c. (of_char c :: nat) < 0x80) s"

definition upper_byte :: "char \<Rightarrow> char" where
  "upper_byte c = char_of (ascii_upper (of_char c))"

definition ToUpper :: "(nat \<Rightarrow> nat) \<Rightarrow> string \<Rightarrow> string" where
  "ToUpper tbl s =
     (if is_ascii s then map upper_byte s
      else concat (map (\<lambda>rb. EncodeRune (unicode_ToUpper tbl (fst rb))) (runes s)))"

text \<open>
  \<^verbatim>\<open>strings.EqualFold\<close>: both strings are decoded rune by rune and the runes compared
  under simple case folding. \<^verbatim>\<open>unicode.SimpleFold\<close> walks the orbit of a rune: the next
  larger equivalent rune, or the smallest one after the largest. Every call of the source
  compares with an ASCII literal, so the folding loop only ever starts from an ASCII rune,
  and only the orbits of the ASCII runes are given here: a letter and its other case, with
  the Kelvin sign U+212A in the orbit of k and the long s U+017F in the orbit of s.
\<close>

definition SimpleFold :: "nat \<Rightarrow> nat" where
  "SimpleFold r =
     (if r = 0x4B then 0x6B else if r = 0x6B then 0x212A else if r = 0x212A then 0x4B
      else if r = 0x53 then 0x73 else if r = 0x73 then 0x17F else if r = 0x17F then 0x53
      else if 0x41 \<le> r \<and> r \<le> 0x5A then r + 0x20
      else if 0x61 \<le> r \<and> r \<le> 0x7A then r - 0x20
      else r)"

fun fold_search :: "nat \<Rightarrow> nat \<Rightarrow> nat \<Rightarrow> nat \<Rightarrow> nat" where
  "fold_search 0 sr tr r = r"
| "fold_search (Suc n) sr tr r =
     (if r \<noteq> sr \<and> r < tr then fold_search n sr tr (SimpleFold r) else r)"

definition fold_eq :: "nat \<Rightarrow> nat \<Rightarrow> bool" where
  "fold_eq a b =
     (if a = b then True
      else let sr = min a b; tr = max a b in
        if tr < 0x80 then 0x41 \<le> sr \<and> sr \<le> 0x5A \<and> tr = sr + 0x20
        else fold_search 4 sr tr (SimpleFold sr) = tr)"

definition EqualFold :: "string \<Rightarrow> string \<Rightarrow> bool" where
  "EqualFold s t \<longleftrightarrow> list_all2 fold_eq (map fst (runes s)) (map fst (runes t))"

text \<open>
  Auxiliary notions for the decoding loop. A string is fresh when it is empty or starts
  with a byte that is not a continuation byte: what stands before it is decoded without
  regard to it. A token is a non-empty string none of whose runes is white space, the kind
  of string \<^verbatim>\<open>strings.Fields\<close> returns. \<open>norm_rune\<close> is the rune that
  \<open>EncodeRune\<close> really writes.
\<close>

definition fresh :: "string \<Rightarrow> bool" where
  "fresh s \<longleftrightarrow> (case s of [] \<Rightarrow> True | c # _ \<Rightarrow> \<not> is_cont c)"

definition token :: "string \<Rightarrow> bool" where
  "token t \<longleftrightarrow> t \<noteq> [] \<and> list_all (\<lambda>rb. \<not> space_rune rb) (runes t)"

definition norm_rune :: "nat \<Rightarrow> nat" where
  "norm_rune x = (if (0xD800 \<le> x \<and> x \<le> 0xDFFF) \<or> 0x10FFFF < x then 0xFFFD else x)"

text \<open>
  What the idempotence of the FirstName stage needs from the case table: mapping to upper
  case twice is the same as mapping once, a rune that is not white space is not mapped to
  white space, and U+FFFD is mapped to itself. The table of the Unicode database has these
  properties.
\<close>

definition case_table_ok :: "(nat \<Rightarrow> nat) \<Rightarrow> bool" where
  "case_table_ok tbl \<longleftrightarrow>
     (\<forall>r. unicode_ToUpper tbl (unicode_ToUpper tbl r) = unicode_ToUpper tbl r)
     \<and> (\<forall>r. \<not> IsSpace r \<longrightarrow> \<not> IsSpace (unicode_ToUpper tbl r))
     \<and> unicode_ToUpper tbl 0xFFFD = 0xFFFD"

text \<open>A case table with a single entry, from U+00E9 to U+00C9, for examples.\<close>

definition demo_table :: "nat \<Rightarrow> nat" where
  "demo_table r = (if r = 0xE9 then 0xC9 else r)"

subsection \<open>\<^verbatim>\<open>strconv.Atoi\<close> and \<^verbatim>\<open>fmt.Sprintf("%05s")\<close>\<close>

definition is_digit :: "char \<Rightarrow> bool" where
  "is_digit c \<longleftrightarrow> 0x30 \<le> (of_char c :: nat) \<and> (of_char c :: nat) \<le> 0x39"

definition digit_val :: "char \<Rightarrow> nat" where
  "digit_val c = of_char c - 0x30"

definition digits_val :: "string \<Rightarrow> nat" where
  "digits_val ds = foldl (\<lambda>n c. n * 10 + digit_val c) 0 ds"

text \<open>
  \<^verbatim>\<open>strconv.Atoi\<close> on a platform whose \<^verbatim>\<open>int\<close> has 64 bits: an optional sign and one or
  more decimal digits, nothing else, and a value that fits the type. A syntax error and a
  range error are both the error result.
\<close>

definition Atoi :: "string \<Rightarrow> int option" where
  "Atoi s =
     (let neg = (s \<noteq> [] \<and> hd s = CHR ''-'');
          ds = (if s \<noteq> [] \<and> (hd s = CHR ''+'' \<or> hd s = CHR ''-'') then tl s else s) in
      if ds = [] \<or> \<not> list_all is_digit ds then None
      else let n = int (digits_val ds) in
        if neg then (if n \<le> 2 ^ 63 then Some (- n) else None)
        else (if n < 2 ^ 63 then Some n else None))"

text \<open>
  \<^verbatim>\<open>fmt.Sprintf("%05s", s)\<close>: the string, with zeros in front when it has fewer than five
  runes. A string of five runes or more is written whole.
\<close>

definition Sprintf_05s :: "string \<Rightarrow> string" where
  "Sprintf_05s s = replicate (5 - length (runes s)) CHR ''0'' @ s"

subsection \<open>\<^verbatim>\<open>float64\<close>\<close>

text \<open>
  A \<^verbatim>\<open>float64\<close> is a finite number (sign, integer significand \<open>m\<close> and exponent \<open>e\<close>,
  for the value \<open>m\<close> times two to the \<open>e\<close>), an infinity or NaN. The finite values of the
  type have a significand below \<open>2 ^ 53\<close> and an exponent from \<open>-1074\<close> to \<open>971\<close>; both
  zeros are finite values.
\<close>

datatype float64 = Finite bool nat int | Infinity bool | NaN

function bitlen :: "nat \<Rightarrow> nat" where
  "bitlen n = (if n = 0 then 0 else Suc (bitlen (n div 2)))"
  by pat_completeness auto
termination
  by (relation "measure id") simp_all

declare bitlen.simps [simp del]

text \<open>The integer nearest to \<open>n / d\<close>, the even one of two nearest.\<close>

definition round_half_even :: "nat \<Rightarrow> nat \<Rightarrow> nat" where
  "round_half_even n d =
     (let q = n div d; r = n mod d in
      if 2 * r < d then q
      else if d < 2 * r then q + 1
      else if even q then q else q + 1)"

text \<open>
  IEEE 754 rounding to nearest, ties to even, of the positive rational \<open>n / d\<close> with the
  given sign. \<open>fl\<close> is the exponent of the leading bit of \<open>n / d\<close>; the significand keeps 53
  bits, fewer below the normal range. A result beyond the largest finite value is an
  infinity.
\<close>

definition round_float64 :: "bool \<Rightarrow> nat \<Rightarrow> nat \<Rightarrow> float64" where
  "round_float64 neg n d =
     (if n = 0 then Finite neg 0 0
      else
        let k = int (bitlen n) - int (bitlen d);
            fl = (if 0 \<le> k then (if d * 2 ^ nat k \<le> n then k else k - 1)
                  else (if d \<le> n * 2 ^ nat (- k) then k else k - 1));
            e = max (fl - 52) (- 1074);
            m = (if 0 \<le> e then round_half_even n (d * 2 ^ nat e)
                 else round_half_even (n * 2 ^ nat (- e)) d)
        in if 971 < e \<or> (e = 971 \<and> m = 2 ^ 53) then Infinity neg else Finite neg m e)"

text \<open>The conversion \<^verbatim>\<open>float64(n)\<close> of an integer.\<close>

definition float64_of_int :: "int \<Rightarrow> float64" where
  "float64_of_int n = (if n = 0 then Finite False 0 0 else round_float64 (n < 0) (nat \<bar>n\<bar>) 1)"

text \<open>
  Addition. The sum of two finite values is computed exactly as an integer multiple of the
  smaller power of two and rounded once. A sum that is exactly zero is the negative zero
  only when both operands are negative.
\<close>

definition signed :: "bool \<Rightarrow> nat \<Rightarrow> int" where
  "signed neg m = (if neg then - int m else int m)"

fun float64_add :: "float64 \<Rightarrow> float64 \<Rightarrow> float64" where
  "float64_add NaN _ = NaN"
| "float64_add _ NaN = NaN"
| "float64_add (Infinity a) (Infinity b) = (if a = b then Infinity a else NaN)"
| "float64_add (Infinity a) (Finite _ _ _) = Infinity a"
| "float64_add (Finite _ _ _) (Infinity b) = Infinity b"
| "float64_add (Finite s1 m1 e1) (Finite s2 m2 e2) =
     (let e = min e1 e2;
          k = signed s1 m1 * 2 ^ nat (e1 - e) + signed s2 m2 * 2 ^ nat (e2 - e)
      in if k = 0 then Finite (s1 \<and> s2) 0 0
         else if 0 \<le> e then round_float64 (k < 0) (nat \<bar>k\<bar> * 2 ^ nat e) 1
         else round_float64 (k < 0) (nat \<bar>k\<bar>) (2 ^ nat (- e)))"

declare float64_add.simps [simp del]

text \<open>Arithmetic of \<^verbatim>\<open>int\<close> (64 bits): results wrap around.\<close>

definition wrap64 :: "int \<Rightarrow> int" where
  "wrap64 x = (x + 2 ^ 63) mod 2 ^ 64 - 2 ^ 63"

subsection \<open>\<^verbatim>\<open>strconv.ParseFloat\<close>\<close>

text \<open>The library's \<^verbatim>\<open>lower(c) = c | 0x20\<close>, as a number.\<close>

definition lower :: "char \<Rightarrow> nat" where
  "lower c = (let b = (of_char c :: nat) in if (b div 0x20) mod 2 = 0 then b + 0x20 else b)"

fun commonPrefixLenIgnoreCase :: "string \<Rightarrow> string \<Rightarrow> nat" where
  "commonPrefixLenIgnoreCase [] _ = 0"
| "commonPrefixLenIgnoreCase _ [] = 0"
| "commonPrefixLenIgnoreCase (c # s) (p # ps) =
     (let b = (of_char c :: nat); b' = (if 0x41 \<le> b \<and> b \<le> 0x5A then b + 0x20 else b) in
      if b' \<noteq> of_char p then 0 else Suc (commonPrefixLenIgnoreCase s ps))"

text \<open>
  \<^verbatim>\<open>special\<close>: an optionally signed \<^verbatim>\<open>inf\<close> or \<^verbatim>\<open>infinity\<close>, or \<^verbatim>\<open>nan\<close>, in any case,
  at the front of the string; the value and the number of bytes read.
\<close>

definition inf_len :: "string \<Rightarrow> nat" where
  "inf_len s =
     (let n = commonPrefixLenIgnoreCase s ''infinity'' in if 3 < n \<and> n < 8 then 3 else n)"

definition special :: "string \<Rightarrow> (float64 \<times> nat) option" where
  "special s =
     (case s of
        [] \<Rightarrow> None
      | c # cs \<Rightarrow>
          if c = CHR ''+'' \<or> c = CHR ''-'' then
            (if inf_len cs = 3 \<or> inf_len cs = 8
             then Some (Infinity (c = CHR ''-''), 1 + inf_len cs) else None)
          else if c = CHR ''i'' \<or> c = CHR ''I'' then
            (if inf_len s = 3 \<or> inf_len s = 8 then Some (Infinity False, inf_len s) else None)
          else if c = CHR ''n'' \<or> c = CHR ''N'' then
            (if commonPrefixLenIgnoreCase s ''nan'' = 3 then Some (NaN, 3) else None)
          else None)"

text \<open>
  \<^verbatim>\<open>readFloat\<close>, the digit loop: digits before and after at most one point, with
  underscores anywhere. Zeros in front of the first other digit only move the point. The
  library keeps the first 19 digits (16 in base 16) and a flag for the rest, which is
  enough to round correctly; here the significand is the exact number.
\<close>

record scan =
  sawdot :: bool
  sawdigits :: bool
  nd :: int
  dp :: int
  mantissa :: nat
  underscores :: bool

fun mant_loop :: "bool \<Rightarrow> scan \<Rightarrow> string \<Rightarrow> scan \<times> string" where
  "mant_loop hex st [] = (st, [])"
| "mant_loop hex st (c # cs) =
     (if c = CHR ''_'' then mant_loop hex (st\<lparr>underscores := True\<rparr>) cs
      else if c = CHR ''.'' then
        (if sawdot st then (st, c # cs)
         else mant_loop hex (st\<lparr>sawdot := True, dp := nd st\<rparr>) cs)
      else if is_digit c then
        (if c = CHR ''0'' \<and> nd st = 0
         then mant_loop hex (st\<lparr>sawdigits := True, dp := dp st - 1\<rparr>) cs
         else mant_loop hex
                (st\<lparr>sawdigits := True, nd := nd st + 1,
                    mantissa := mantissa st * (if hex then 16 else 10) + digit_val c\<rparr>) cs)
      else if hex \<and> 0x61 \<le> lower c \<and> lower c \<le> 0x66 then
        mant_loop hex
          (st\<lparr>sawdigits := True, nd := nd st + 1,
              mantissa := mantissa st * 16 + (lower c - 0x61 + 10)\<rparr>) cs
      else (st, c # cs))"

text \<open>
  The digits of the exponent, with underscores; the number stops growing once it has
  reached 10000. Returns the exponent, whether an underscore was seen, and the rest.
\<close>

fun exp_loop :: "nat \<Rightarrow> bool \<Rightarrow> string \<Rightarrow> nat \<times> bool \<times> string" where
  "exp_loop e u [] = (e, u, [])"
| "exp_loop e u (c # cs) =
     (if c = CHR ''_'' then exp_loop e True cs
      else if is_digit c then exp_loop (if e < 10000 then e * 10 + digit_val c else e) u cs
      else (e, u, c # cs))"

text \<open>
  \<^verbatim>\<open>underscoreOK\<close>: an underscore stands between two digits, or between the base prefix and
  a digit.
\<close>

datatype saw = SawStart | SawDigit | SawUnderscore | SawOther

fun underscore_loop :: "bool \<Rightarrow> saw \<Rightarrow> string \<Rightarrow> bool" where
  "underscore_loop hex sw [] = (sw \<noteq> SawUnderscore)"
| "underscore_loop hex sw (c # cs) =
     (if is_digit c \<or> (hex \<and> 0x61 \<le> lower c \<and> lower c \<le> 0x66)
      then underscore_loop hex SawDigit cs
      else if c = CHR ''_'' then (if sw \<noteq> SawDigit then False else underscore_loop hex SawUnderscore cs)
      else if sw = SawUnderscore then False
      else underscore_loop hex SawOther cs)"

definition underscoreOK :: "string \<Rightarrow> bool" where
  "underscoreOK s0 =
     (let s = (if s0 \<noteq> [] \<and> (hd s0 = CHR ''-'' \<or> hd s0 = CHR ''+'') then tl s0 else s0) in
      if 2 \<le> length s \<and> hd s = CHR ''0''
         \<and> (lower (s ! 1) = 0x62 \<or> lower (s ! 1) = 0x6F \<or> lower (s ! 1) = 0x78)
      then underscore_loop (lower (s ! 1) = 0x78) SawDigit (drop 2 s)
      else underscore_loop False SawStart s)"

text \<open>
  \<^verbatim>\<open>readFloat\<close> on a whole string: the sign, whether the number is hexadecimal, the
  significand and the exponent of the base (ten, or two for a hexadecimal number).
  \<^verbatim>\<open>ParseFloat\<close> rejects a string that is not read to its end, so that case is an error
  here as well.
\<close>

definition readFloat :: "string \<Rightarrow> (bool \<times> bool \<times> nat \<times> int) option" where
  "readFloat s =
     (if s = [] then None
      else
        let neg = (hd s = CHR ''-'');
            s1 = (if hd s = CHR ''+'' \<or> hd s = CHR ''-'' then tl s else s);
            hex = (2 < length s1 \<and> hd s1 = CHR ''0'' \<and> lower (s1 ! 1) = 0x78);
            s2 = (if hex then drop 2 s1 else s1);
            (st, rest) =
              mant_loop hex
                \<lparr>sawdot = False, sawdigits = False, nd = 0, dp = 0, mantissa = 0,
                 underscores = False\<rparr> s2
        in
          if \<not> sawdigits st then None
          else
            let dp1 = (if sawdot st then dp st else nd st);
                dp2 = (if hex then dp1 * 4 else dp1);
                ndMant = (if hex then nd st * 4 else nd st)
            in
              if rest \<noteq> [] \<and> lower (hd rest) = (if hex then 0x70 else 0x65) then
                (let r1 = tl rest in
                 if r1 = [] then None
                 else
                   let esign = (if hd r1 = CHR ''-'' then - 1 else (1 :: int));
                       r2 = (if hd r1 = CHR ''+'' \<or> hd r1 = CHR ''-'' then tl r1 else r1)
                   in
                     if r2 = [] \<or> \<not> is_digit (hd r2) then None
                     else
                       let (e, u, rest') = exp_loop 0 (underscores st) r2;
                           dp3 = dp2 + int e * esign
                       in
                         if rest' \<noteq> [] \<or> (u \<and> \<not> underscoreOK s) then None
                         else Some (neg, hex, mantissa st,
                                    if mantissa st \<noteq> 0 then dp3 - ndMant else 0))
              else if hex then None
              else if rest \<noteq> [] \<or> (underscores st \<and> \<not> underscoreOK s) then None
              else Some (neg, hex, mantissa st, if mantissa st \<noteq> 0 then dp2 - ndMant else 0))"

text \<open>
  \<^verbatim>\<open>strconv.ParseFloat(s, 64)\<close>: the \<^verbatim>\<open>float64\<close> nearest to the number written, or an
  error when the string is not a number or the number is too large for the type.
\<close>

definition ParseFloat :: "string \<Rightarrow> float64 option" where
  "ParseFloat s =
     (case special s of
        Some (f, n) \<Rightarrow> (if n = length s then Some f else None)
      | None \<Rightarrow>
          (case readFloat s of
             None \<Rightarrow> None
           | Some (neg, hex, m, ex) \<Rightarrow>
               (let b = (if hex then 2 else 10 :: nat);
                    f = (if 0 \<le> ex then round_float64 neg (m * b ^ nat ex) 1
                         else round_float64 neg m (b ^ nat (- ex)))
                in case f of Infinity _ \<Rightarrow> None | _ \<Rightarrow> Some f)))"

subsection \<open>\<^verbatim>\<open>fmt.Sprintf("%.3f")\<close>\<close>

function show_nat :: "nat \<Rightarrow> string" where
  "show_nat n =
     (if n < 10 then [char_of (0x30 + n)]
      else show_nat (n div 10) @ [char_of (0x30 + n mod 10)])"
  by pat_completeness auto
termination
  by (relation "measure id") simp_all

declare show_nat.simps [simp del]

text \<open>
  The verb \<^verbatim>\<open>%.3f\<close> writes the exact value of a finite number rounded to three decimals
  (ties to even), with a minus sign for a negative number, the negative zero included. The
  other values are written \<^verbatim>\<open>+Inf\<close>, \<^verbatim>\<open>-Inf\<close> and \<^verbatim>\<open>NaN\<close>.
\<close>

definition thousandths :: "nat \<Rightarrow> int \<Rightarrow> nat" where
  "thousandths m e =
     (if 0 \<le> e then m * 2 ^ nat e * 1000 else round_half_even (m * 1000) (2 ^ nat (- e)))"

definition three_digits :: "nat \<Rightarrow> string" where
  "three_digits n =
     [char_of (0x30 + n div 100), char_of (0x30 + (n div 10) mod 10), char_of (0x30 + n mod 10)]"

fun Sprintf_3f :: "float64 \<Rightarrow> string" where
  "Sprintf_3f NaN = ''NaN''"
| "Sprintf_3f (Infinity neg) = (if neg then ''-Inf'' else ''+Inf'')"
| "Sprintf_3f (Finite neg m e) =
     (let r = thousandths m e in
      (if neg then ''-'' else []) @ show_nat (r div 1000) @ ''.'' @ three_digits (r mod 1000))"

declare Sprintf_3f.simps [simp del]

text \<open>
  What the verb is to write, said without the algorithm. \<open>nearest_even n d q\<close>: of all
  integers, \<open>q\<close> is the nearest to \<open>n / d\<close>, and the even one when two are equally near.
  \<open>thousandths_of m e n\<close>: \<open>n\<close> thousandths is the multiple of 0.001 nearest in that sense to
  \<open>m\<close> times two to the \<open>e\<close>. \<open>fixed3 neg n\<close>: the numeral of \<open>n\<close> thousandths with its three
  fractional digits, after a minus sign when \<open>neg\<close>.
\<close>

definition nearest_even :: "nat \<Rightarrow> nat \<Rightarrow> nat \<Rightarrow> bool" where
  "nearest_even n d q \<longleftrightarrow>
     2 * \<bar>int q * int d - int n\<bar> < int d
     \<or> (2 * \<bar>int q * int d - int n\<bar> = int d \<and> even q)"



subsection \<open>\<^verbatim>\<open>time\<close>\<close>

text \<open>
  A \<^verbatim>\<open>*time.Location\<close> is used through its lookup only: for an instant in seconds since
  the Unix epoch, the offset from UTC in force and the instants between which that offset
  holds (from the first, up to but without the second). The time zone database that
  \<^verbatim>\<open>time.LoadLocation\<close> reads is not part of the repository: the stage takes it as a
  parameter, a partial map from zone names to locations.
\<close>

type_synonym location = "int \<Rightarrow> int \<times> int \<times> int"
type_synonym tzdb = "string \<Rightarrow> location option"

text \<open>The reading of the clock in a location at an instant, in seconds.\<close>

definition wall_clock :: "location \<Rightarrow> int \<Rightarrow> int" where
  "wall_clock loc t = t + fst (loc t)"

text \<open>The proleptic Gregorian calendar: days since 1970-01-01 and back.\<close>

definition days_from_civil :: "int \<Rightarrow> int \<Rightarrow> int \<Rightarrow> int" where
  "days_from_civil y m d =
     (let y' = (if m \<le> 2 then y - 1 else y);
          era = y' div 400;
          yoe = y' - era * 400;
          doy = (153 * (if 2 < m then m - 3 else m + 9) + 2) div 5 + d - 1;
          doe = yoe * 365 + yoe div 4 - yoe div 100 + doy
      in era * 146097 + doe - 719468)"

definition civil_from_days :: "int \<Rightarrow> int \<times> int \<times> int" where
  "civil_from_days z0 =
     (let z = z0 + 719468;
          era = z div 146097;
          doe = z - era * 146097;
          yoe = (doe - doe div 1460 + doe div 36524 - doe div 146096) div 365;
          doy = doe - (365 * yoe + yoe div 4 - yoe div 100);
          mp = (5 * doy + 2) div 153;
          d = doy - (153 * mp + 2) div 5 + 1;
          m = (if mp < 10 then mp + 3 else mp - 9)
      in ((if m \<le> 2 then yoe + era * 400 + 1 else yoe + era * 400), m, d))"

definition isLeap :: "int \<Rightarrow> bool" where
  "isLeap y \<longleftrightarrow> y mod 4 = 0 \<and> (y mod 100 \<noteq> 0 \<or> y mod 400 = 0)"

definition daysIn :: "int \<Rightarrow> int \<Rightarrow> int" where
  "daysIn m y =
     (if m = 2 then (if isLeap y then 29 else 28)
      else if m = 4 \<or> m = 6 \<or> m = 9 \<or> m = 11 then 30 else 31)"

text \<open>
  \<^verbatim>\<open>time.Date\<close> for fields that are in range: the local time is first read as if it were
  UTC; the offset found there is kept when the corrected instant lies in the same period
  of the zone, and looked up again at the corrected instant otherwise.
\<close>

definition Date :: "int \<Rightarrow> int \<Rightarrow> int \<Rightarrow> int \<Rightarrow> int \<Rightarrow> int \<Rightarrow> location \<Rightarrow> int" where
  "Date year month day hour minute sec loc =
     (let unix = days_from_civil year month day * 86400 + hour * 3600 + minute * 60 + sec in
      case loc unix of
        (offset, start, end) \<Rightarrow>
          if offset \<noteq> 0 then
            (let utc = unix - offset in
             if utc < start \<or> end \<le> utc then unix - fst (loc utc) else unix - offset)
          else unix)"

text \<open>
  \<^verbatim>\<open>getnum\<close>: one or two digits (two when \<open>fixed\<close>) at the front of the string, and the
  rest.
\<close>

definition getnum :: "string \<Rightarrow> bool \<Rightarrow> (int \<times> string) option" where
  "getnum s fixed =
     (case s of
        [] \<Rightarrow> None
      | c0 # s1 \<Rightarrow>
          if \<not> is_digit c0 then None
          else (case s1 of
                  [] \<Rightarrow> (if fixed then None else Some (int (digit_val c0), s1))
                | c1 # s2 \<Rightarrow>
                    if \<not> is_digit c1
                    then (if fixed then None else Some (int (digit_val c0), s1))
                    else Some (int (digit_val c0) * 10 + int (digit_val c1), s2)))"

text \<open>
  \<^verbatim>\<open>skip\<close> for the separators of the layout: a slash or a colon stands for itself, a
  space for any number of spaces (none only at the end of the value).
\<close>

definition skip_char :: "char \<Rightarrow> string \<Rightarrow> string option" where
  "skip_char c s = (case s of [] \<Rightarrow> None | x # xs \<Rightarrow> if x = c then Some xs else None)"

definition skip_space :: "string \<Rightarrow> string option" where
  "skip_space s =
     (if s \<noteq> [] \<and> hd s \<noteq> CHR '' '' then None else Some (dropWhile (\<lambda>c. c = CHR '' '') s))"

text \<open>
  The two-character year: two digits, or a sign and a digit (the package's \<^verbatim>\<open>atoi\<close>
  takes a sign); from 69 on it is a year of the 1900s, below that of the 2000s.
\<close>

definition year2 :: "string \<Rightarrow> (int \<times> string) option" where
  "year2 s =
     (case s of
        c0 # c1 # rest \<Rightarrow>
          (let y = (if is_digit c0 \<and> is_digit c1
                    then Some (int (digit_val c0) * 10 + int (digit_val c1))
                    else if c0 = CHR ''+'' \<and> is_digit c1 then Some (int (digit_val c1))
                    else if c0 = CHR ''-'' \<and> is_digit c1 then Some (- int (digit_val c1))
                    else None)
           in case y of
                None \<Rightarrow> None
              | Some v \<Rightarrow> Some ((if 69 \<le> v then v + 1900 else v + 2000), rest))
      | _ \<Rightarrow> None)"

text \<open>
  A fraction after the seconds (a point or a comma and digits) is read although the layout
  has none. It only sets nanoseconds, which the output format does not show.
\<close>

definition skip_fraction :: "string \<Rightarrow> string" where
  "skip_fraction s =
     (case s of
        c0 # c1 # rest \<Rightarrow>
          if (c0 = CHR ''.'' \<or> c0 = CHR '','') \<and> is_digit c1 then dropWhile is_digit rest else s
      | _ \<Rightarrow> s)"

definition ampm :: "string \<Rightarrow> (bool \<times> string) option" where
  "ampm s =
     (case s of
        c0 # c1 # rest \<Rightarrow>
          if [c0, c1] = ''PM'' then Some (True, rest)
          else if [c0, c1] = ''AM'' then Some (False, rest)
          else None
      | _ \<Rightarrow> None)"

text \<open>
  \<^verbatim>\<open>time.ParseInLocation\<close> with the layout \<^verbatim>\<open>1/2/06 3:04:05 PM\<close> of the stage: month,
  day, year, hour of the twelve-hour clock, minute, second and AM or PM, with the
  separators of the layout, and nothing after. The result is the instant in seconds since
  the epoch; \<open>None\<close> is the parse error.
\<close>

definition parse_date :: "string \<Rightarrow> (int \<times> int \<times> int \<times> string) option" where
  "parse_date v0 = do {
     (month, v1) \<leftarrow> getnum v0 False;
     if month \<le> 0 \<or> 12 < month then None else do {
       v2 \<leftarrow> skip_char CHR ''/'' v1;
       (day, v3) \<leftarrow> getnum v2 False;
       v4 \<leftarrow> skip_char CHR ''/'' v3;
       (year, v5) \<leftarrow> year2 v4;
       Some (year, month, day, v5)
     }
   }"

definition parse_clock :: "string \<Rightarrow> (int \<times> int \<times> int \<times> string) option" where
  "parse_clock v6 = do {
     (hour, v7) \<leftarrow> getnum v6 False;
     if 12 < hour then None else do {
       v8 \<leftarrow> skip_char CHR '':'' v7;
       (minute, v9) \<leftarrow> getnum v8 True;
       if 60 \<le> minute then None else do {
         v10 \<leftarrow> skip_char CHR '':'' v9;
         (sec, v11) \<leftarrow> getnum v10 True;
         if 60 \<le> sec then None else Some (hour, minute, sec, skip_fraction v11)
       }
     }
   }"

definition ParseInLocation :: "string \<Rightarrow> location \<Rightarrow> int option" where
  "ParseInLocation v0 loc = do {
     (year, month, day, v5) \<leftarrow> parse_date v0;
     v6 \<leftarrow> skip_space v5;
     (hour, minute, sec, v11) \<leftarrow> parse_clock v6;
     v12 \<leftarrow> skip_space v11;
     (pm, v13) \<leftarrow> ampm v12;
     if v13 \<noteq> [] then None
     else
       let hour' = (if pm \<and> hour < 12 then hour + 12
                    else if \<not> pm \<and> hour = 12 then 0 else hour)
       in if day < 1 \<or> daysIn month year < day then None
          else Some (Date year month day hour' minute sec loc)
   }"

text \<open>
  \<^verbatim>\<open>appendInt\<close>: a number with zeros in front up to a width, and a minus sign for a
  negative one.
\<close>

definition appendInt :: "int \<Rightarrow> nat \<Rightarrow> string" where
  "appendInt x width =
     (let ds = show_nat (nat \<bar>x\<bar>) in
      (if x < 0 then ''-'' else []) @ replicate (width - length ds) CHR ''0'' @ ds)"

text \<open>
  \<^verbatim>\<open>t.In(loc).Format(time.RFC3339)\<close>: date and time of day at the offset the location has
  at the instant, and the offset in hours and minutes, or \<^verbatim>\<open>Z\<close> for the offset zero.
  The division of the offset by 60 rounds towards zero.
\<close>

definition Format_RFC3339 :: "int \<Rightarrow> location \<Rightarrow> string" where
  "Format_RFC3339 unix loc =
     (let offset = fst (loc unix);
          abs = unix + offset;
          (year, month, day) = civil_from_days (abs div 86400);
          secs = abs mod 86400;
          zone = (if offset < 0 then - ((- offset) div 60) else offset div 60)
      in appendInt year 4 @ ''-'' @ appendInt month 2 @ ''-'' @ appendInt day 2 @ ''T''
         @ appendInt (secs div 3600) 2 @ '':'' @ appendInt ((secs div 60) mod 60) 2 @ '':''
         @ appendInt (secs mod 60) 2
         @ (if offset = 0 then ''Z''
            else (if zone < 0 then ''-'' else ''+'')
                 @ appendInt (\<bar>zone\<bar> div 60) 2 @ '':'' @ appendInt (\<bar>zone\<bar> mod 60) 2))"

text \<open>
  The periods of the two zones of the stage around the year 2024, as the time zone database
  has them: Pacific time is eight hours behind UTC, seven from 2024-03-10 10:00 UTC to
  2024-11-03 09:00 UTC; Eastern time is five hours behind UTC, four from 2024-03-10
  07:00 UTC to 2024-11-03 06:00 UTC. The two locations stand for the database between
  November 2023 and March 2025 only.
\<close>

definition Los_Angeles_2024 :: location where
  "Los_Angeles_2024 t =
     (if t < 1710064800 then (- 28800, 1699174800, 1710064800)
      else if t < 1730624400 then (- 25200, 1710064800, 1730624400)
      else (- 28800, 1730624400, 1741514400))"

definition New_York_2024 :: location where
  "New_York_2024 t =
     (if t < 1710054000 then (- 18000, 1699164000, 1710054000)
      else if t < 1730613600 then (- 14400, 1710054000, 1730613600)
      else (- 18000, 1730613600, 1741503600))"

definition tzdb_2024 :: tzdb where
  "tzdb_2024 name =
     (if name = ''America/Los_Angeles'' then Some Los_Angeles_2024
      else if name = ''America/New_York'' then Some New_York_2024
      else None)"

subsection \<open>The UTF-8 decoder of \<^verbatim>\<open>golang.org/x/text\<close>\<close>

text \<open>
  \<^verbatim>\<open>unicode.UTF8.NewDecoder()\<close> copies well-formed encodings and writes U+FFFD once for
  every maximal subpart of an ill-formed subsequence: a byte that cannot start an encoding,
  or a start byte with as many of the bytes after it as still fit an encoding (one to
  three bytes in all). \<open>decoder_step\<close> is one round of its loop on the rest of the
  input, at end of input: the bytes written and the number of bytes consumed.
\<close>

definition lead_size :: "nat \<Rightarrow> nat" where
  "lead_size b0 =
     (if 0xC2 \<le> b0 \<and> b0 \<le> 0xDF then 2
      else if 0xE0 \<le> b0 \<and> b0 \<le> 0xEF then 3
      else if 0xF0 \<le> b0 \<and> b0 \<le> 0xF4 then 4
      else 0)"

definition replacement :: string where
  "replacement = [CHR 0xEF, CHR 0xBF, CHR 0xBD]"

definition decoder_step :: "string \<Rightarrow> string \<times> nat" where
  "decoder_step s =
     (let b0 = (of_char (hd s) :: nat); size = lead_size b0; n = length s in
      if b0 < 0x80 then ([hd s], 1)
      else if size = 0 then (replacement, 1)
      else if n < size then
        (if n \<le> 1 \<or> \<not> second_ok b0 (s ! 1) then (replacement, 1)
         else if n \<le> 2 \<or> \<not> is_cont (s ! 2) then (replacement, 2)
         else (replacement, 3))
      else if \<not> second_ok b0 (s ! 1) then (replacement, 1)
      else if size = 2 then (take 2 s, 2)
      else if \<not> is_cont (s ! 2) then (replacement, 2)
      else if size = 3 then (take 3 s, 3)
      else if \<not> is_cont (s ! 3) then (replacement, 3)
      else (take 4 s, 4))"

lemma decoder_step_pos: "0 < snd (decoder_step s)"
  by (simp add: decoder_step_def Let_def)

function utf8_decoder :: "string \<Rightarrow> string" where
  "utf8_decoder s =
     (if s = [] then []
      else fst (decoder_step s) @ utf8_decoder (drop (snd (decoder_step s)) s))"
  by pat_completeness auto
termination
  by (relation "measure length") (simp_all add: decoder_step_pos)

declare utf8_decoder.simps [simp del]

text \<open>
  \<^verbatim>\<open>transform.String\<close> feeds the whole string through the decoder, growing its buffers
  when the decoder reports a short one. The decoder reports nothing else, so the error
  result never occurs; the result type keeps the place for it.
\<close>

definition transform_String :: "string \<Rightarrow> unit + string" where
  "transform_String s = Inr (utf8_decoder s)"





section \<open>The stages\<close>

text \<open>
  The header scan with \<^verbatim>\<open>break\<close>: the index of the first header cell that matches.
\<close>

fun find_first :: "(string \<Rightarrow> bool) \<Rightarrow> string list \<Rightarrow> nat option" where
  "find_first P [] = None"
| "find_first P (h # hs) =
     (if P h then Some 0 else map_option Suc (find_first P hs))"

text \<open>
  The row loop of every stage: each data row is copied, the copy is changed by the body
  of the loop and appended to the output. A body that panics ends the loop.
\<close>

fun rows_loop :: "(row \<Rightarrow> (row \<times> warning list) option) \<Rightarrow> row list
    \<Rightarrow> (row list \<times> warning list) option" where
  "rows_loop body [] = Some ([], [])"
| "rows_loop body (r # rs) =
     (case body r of
        None \<Rightarrow> None
      | Some (newRow, w) \<Rightarrow>
          (case rows_loop body rs of
             None \<Rightarrow> None
           | Some (updated, ws) \<Rightarrow> Some (newRow # updated, w @ ws)))"

definition run_stage :: "row \<Rightarrow> (row \<Rightarrow> (row \<times> warning list) option) \<Rightarrow> row list \<Rightarrow> outcome" where
  "run_stage header body rest =
     (case rows_loop body rest of
        None \<Rightarrow> Panic
      | Some (updated, ws) \<Rightarrow> Ok (header # updated) ws)"

subsection \<open>Timestamp\<close>

definition timestamp_body :: "location \<Rightarrow> location \<Rightarrow> nat \<Rightarrow> row \<Rightarrow> (row \<times> warning list) option" where
  "timestamp_body locPacific locEastern timestampIndex newRow =
     (if timestampIndex < length newRow then
        (case ParseInLocation (newRow ! timestampIndex) locPacific of
           None \<Rightarrow> Some (newRow, [BadTimestamp (newRow ! timestampIndex)])
         | Some t \<Rightarrow> Some (newRow[timestampIndex := Format_RFC3339 t locEastern], []))
      else Some (newRow, []))"

definition ProcessTimestamp :: "tzdb \<Rightarrow> table \<Rightarrow> outcome" where
  "ProcessTimestamp db records =
     (case records of
        [] \<Rightarrow> Ok records []
      | header # rest \<Rightarrow>
          (case find_first (\<lambda>h. h = ''Timestamp'') header of
             None \<Rightarrow> Err (ColumnNotFound ''timestamp column not found'')
           | Some timestampIndex \<Rightarrow>
               (case db ''America/Los_Angeles'' of
                  None \<Rightarrow> Err (TzLoadFailed ''failed to load Pacific timezone'')
                | Some locPacific \<Rightarrow>
                    (case db ''America/New_York'' of
                       None \<Rightarrow> Err (TzLoadFailed ''failed to load Eastern timezone'')
                     | Some locEastern \<Rightarrow>
                         run_stage header
                           (timestamp_body locPacific locEastern timestampIndex) rest))))"

subsection \<open>ZIP\<close>

definition zip_body :: "nat \<Rightarrow> row \<Rightarrow> (row \<times> warning list) option" where
  "zip_body zipIndex newRow =
     (if zipIndex < length newRow then
        (let zip = TrimSpace (newRow ! zipIndex) in
         if zip = [] then Some (newRow, [])
         else (case Atoi zip of
                 Some _ \<Rightarrow> Some (newRow[zipIndex := Sprintf_05s zip], [])
               | None \<Rightarrow> Some (newRow, [InvalidZIP zip])))
      else Some (newRow, []))"

definition ProcessZIPs :: "table \<Rightarrow> outcome" where
  "ProcessZIPs records =
     (case records of
        [] \<Rightarrow> Ok records []
      | header # rest \<Rightarrow>
          (case find_first (\<lambda>h. EqualFold h ''ZIP'') header of
             None \<Rightarrow> Err (ColumnNotFound ''ZIP column not found'')
           | Some zipIndex \<Rightarrow> run_stage header (zip_body zipIndex) rest))"

subsection \<open>FirstName\<close>

definition firstname_body :: "(nat \<Rightarrow> nat) \<Rightarrow> nat \<Rightarrow> row \<Rightarrow> (row \<times> warning list) option" where
  "firstname_body tbl fullNameIndex newRow =
     (if fullNameIndex < length newRow then
        (let original = TrimSpace (newRow ! fullNameIndex) in
         if original \<noteq> [] then
           (case Fields original of
              [] \<Rightarrow> Some (newRow, [])
            | p # ps \<Rightarrow> Some (newRow[fullNameIndex := Join (ToUpper tbl p # ps) '' ''], []))
         else Some (newRow, []))
      else Some (newRow, []))"

definition ProcessFirstName :: "(nat \<Rightarrow> nat) \<Rightarrow> table \<Rightarrow> outcome" where
  "ProcessFirstName tbl records =
     (case records of
        [] \<Rightarrow> Ok records []
      | header # rest \<Rightarrow>
          (case find_first (\<lambda>h. EqualFold h ''FullName'') header of
             None \<Rightarrow> Err (ColumnNotFound ''FullName column not found'')
           | Some fullNameIndex \<Rightarrow> run_stage header (firstname_body tbl fullNameIndex) rest))"

subsection \<open>Address\<close>

definition address_body :: "nat \<Rightarrow> row \<Rightarrow> (row \<times> warning list) option" where
  "address_body addressIndex newRow =
     (if addressIndex < length newRow then
        (let val = newRow ! addressIndex in
         if \<not> ValidString val then Some (newRow, [InvalidAddress val])
         else Some (newRow, []))
      else Some (newRow, []))"

definition ProcessAddress :: "table \<Rightarrow> outcome" where
  "ProcessAddress records =
     (case records of
        [] \<Rightarrow> Ok records []
      | header # rest \<Rightarrow>
          (case find_first (\<lambda>h. EqualFold h ''Address'') header of
             None \<Rightarrow> Err (ColumnNotFound ''address column not found'')
           | Some addressIndex \<Rightarrow> run_stage header (address_body addressIndex) rest))"

subsection \<open>Durations\<close>

text \<open>
  The header scan of the two duration stages has no \<^verbatim>\<open>break\<close>: the index kept for a name
  is that of the last header cell that, trimmed, is the name.
\<close>

fun find_last_from :: "nat \<Rightarrow> (string \<Rightarrow> bool) \<Rightarrow> string list \<Rightarrow> nat option \<Rightarrow> nat option" where
  "find_last_from i P [] idx = idx"
| "find_last_from i P (h # hs) idx = find_last_from (Suc i) P hs (if P h then Some i else idx)"

definition find_last :: "(string \<Rightarrow> bool) \<Rightarrow> string list \<Rightarrow> nat option" where
  "find_last P header = find_last_from 0 P header None"

definition parseHHMMSS :: "string \<Rightarrow> float64 option" where
  "parseHHMMSS input =
     (let parts = Split input CHR '':'' in
      if length parts \<noteq> 3 then None
      else case Atoi (parts ! 0) of
        None \<Rightarrow> None
      | Some hours \<Rightarrow>
          (case Atoi (parts ! 1) of
             None \<Rightarrow> None
           | Some minutes \<Rightarrow>
               (case ParseFloat (parts ! 2) of
                  None \<Rightarrow> None
                | Some seconds \<Rightarrow>
                    Some (float64_add
                            (float64_of_int (wrap64 (wrap64 (hours * 3600) + wrap64 (minutes * 60))))
                            seconds))))"

definition convert_foo :: "nat \<Rightarrow> row \<Rightarrow> row \<times> warning list" where
  "convert_foo fooIndex newRow =
     (if fooIndex < length newRow then
        (case parseHHMMSS (newRow ! fooIndex) of
           None \<Rightarrow> (newRow, [BadFooDuration (newRow ! fooIndex)])
         | Some sec \<Rightarrow> (newRow[fooIndex := Sprintf_3f sec], []))
      else (newRow, []))"

definition convert_bar :: "nat \<Rightarrow> row \<Rightarrow> row \<times> warning list" where
  "convert_bar barIndex newRow =
     (if barIndex < length newRow then
        (case parseHHMMSS (newRow ! barIndex) of
           None \<Rightarrow> (newRow, [BadBarDuration (newRow ! barIndex)])
         | Some sec \<Rightarrow> (newRow[barIndex := Sprintf_3f sec], []))
      else (newRow, []))"

definition durations_body :: "nat \<Rightarrow> nat \<Rightarrow> row \<Rightarrow> (row \<times> warning list) option" where
  "durations_body fooIndex barIndex row =
     (let (row1, w1) = convert_foo fooIndex row;
          (row2, w2) = convert_bar barIndex row1
      in Some (row2, w1 @ w2))"

definition ProcessDurations :: "table \<Rightarrow> outcome" where
  "ProcessDurations records =
     (case records of
        [] \<Rightarrow> Ok records []
      | header # rest \<Rightarrow>
          (case (find_last (\<lambda>h. TrimSpace h = ''FooDuration'') header,
                 find_last (\<lambda>h. TrimSpace h = ''BarDuration'') header) of
             (Some fooIndex, Some barIndex) \<Rightarrow>
               run_stage header (durations_body fooIndex barIndex) rest
           | _ \<Rightarrow> Err (ColumnNotFound ''FooDuration or BarDuration column not found'')))"

subsection \<open>TotalDuration\<close>

text \<open>
  The body of this loop indexes the row without comparing the index with the length of the
  row: on a row that is too short the index expression panics.
\<close>

definition total_body :: "nat \<Rightarrow> nat \<Rightarrow> nat \<Rightarrow> row \<Rightarrow> (row \<times> warning list) option" where
  "total_body fooIndex barIndex totalIndex newRow =
     (if length newRow \<le> fooIndex then None
      else if length newRow \<le> barIndex then None
      else
        (case (ParseFloat (TrimSpace (newRow ! fooIndex)),
               ParseFloat (TrimSpace (newRow ! barIndex))) of
           (Some foo, Some bar) \<Rightarrow>
             if length newRow \<le> totalIndex then None
             else Some (newRow[totalIndex := Sprintf_3f (float64_add foo bar)], [])
         | _ \<Rightarrow>
             if length newRow \<le> totalIndex then None
             else Some (newRow[totalIndex := []], [BadTotalDuration newRow])))"

definition ProcessTotalDuration :: "table \<Rightarrow> outcome" where
  "ProcessTotalDuration records =
     (case records of
        [] \<Rightarrow> Ok records []
      | header # rest \<Rightarrow>
          (case (find_last (\<lambda>h. TrimSpace h = ''FooDuration'') header,
                 find_last (\<lambda>h. TrimSpace h = ''BarDuration'') header,
                 find_last (\<lambda>h. TrimSpace h = ''TotalDuration'') header) of
             (Some fooIndex, Some barIndex, Some totalIndex) \<Rightarrow>
               run_stage header (total_body fooIndex barIndex totalIndex) rest
           | _ \<Rightarrow> Err (ColumnNotFound ''required duration columns not found'')))"

subsection \<open>Notes\<close>

text \<open>
  The body of the loop, with the cleaning operation as a parameter: the stage runs it with
  \<open>transform_String\<close>.
\<close>

definition notes_body :: "(string \<Rightarrow> unit + string) \<Rightarrow> nat \<Rightarrow> row \<Rightarrow> (row \<times> warning list) option" where
  "notes_body clean notesIndex newRow =
     (if notesIndex < length newRow then
        (let val = newRow ! notesIndex in
         if \<not> ValidString val then
           (case clean val of
              Inl _ \<Rightarrow> Some (newRow, [NotesCleanFailed])
            | Inr cleaned \<Rightarrow> Some (newRow[notesIndex := cleaned], []))
         else Some (newRow, []))
      else Some (newRow, []))"

definition ProcessNotes :: "table \<Rightarrow> outcome" where
  "ProcessNotes records =
     (case records of
        [] \<Rightarrow> Ok records []
      | header # rest \<Rightarrow>
          (case find_first (\<lambda>h. EqualFold h ''Notes'') header of
             None \<Rightarrow> Err (ColumnNotFound ''notes column not found'')
           | Some notesIndex \<Rightarrow> run_stage header (notes_body transform_String notesIndex) rest))"

subsection \<open>The pipeline\<close>

text \<open>
  \<^verbatim>\<open>main\<close> runs the stages in a fixed order on the table of the stage before and exits at
  the first error, before any later stage and before the output file is written.
\<close>

fun is_err :: "outcome \<Rightarrow> bool" where
  "is_err (Err _) = True"
| "is_err _ = False"

fun and_then :: "outcome \<Rightarrow> (table \<Rightarrow> outcome) \<Rightarrow> outcome" where
  "and_then (Ok records ws) stage =
     (case stage records of
        Ok records' ws' \<Rightarrow> Ok records' (ws @ ws')
      | Err e \<Rightarrow> Err e
      | Panic \<Rightarrow> Panic)"
| "and_then (Err e) stage = Err e"
| "and_then Panic stage = Panic"

definition pipeline :: "tzdb \<Rightarrow> (nat \<Rightarrow> nat) \<Rightarrow> table \<Rightarrow> outcome" where
  "pipeline db tbl records =
     and_then (and_then (and_then (and_then (and_then (and_then
       (ProcessTimestamp db records)
       ProcessZIPs) (ProcessFirstName tbl)) ProcessAddress) ProcessDurations)
       ProcessTotalDuration) ProcessNotes"

text \<open>
  The conditions under which a stage finds what it needs: its column in the header, under
  the stage's own way of comparing names, and for the Timestamp stage the two time zones.
\<close>

abbreviation has_timestamp :: "row \<Rightarrow> bool" where
  "has_timestamp header \<equiv> ''Timestamp'' \<in> set header"

abbreviation zones_load :: "tzdb \<Rightarrow> bool" where
  "zones_load db \<equiv> db ''America/Los_Angeles'' \<noteq> None \<and> db ''America/New_York'' \<noteq> None"

abbreviation has_zip :: "row \<Rightarrow> bool" where
  "has_zip header \<equiv> \<exists>h\<in>set header. EqualFold h ''ZIP''"

abbreviation has_fullname :: "row \<Rightarrow> bool" where
  "has_fullname header \<equiv> \<exists>h\<in>set header. EqualFold h ''FullName''"

abbreviation has_address :: "row \<Rightarrow> bool" where
  "has_address header \<equiv> \<exists>h\<in>set header. EqualFold h ''Address''"

abbreviation has_foo :: "row \<Rightarrow> bool" where
  "has_foo header \<equiv> \<exists>h\<in>set header. TrimSpace h = ''FooDuration''"

abbreviation has_bar :: "row \<Rightarrow> bool" where
  "has_bar header \<equiv> \<exists>h\<in>set header. TrimSpace h = ''BarDuration''"

abbreviation has_total :: "row \<Rightarrow> bool" where
  "has_total header \<equiv> \<exists>h\<in>set header. TrimSpace h = ''TotalDuration''"

abbreviation has_notes :: "row \<Rightarrow> bool" where
  "has_notes header \<equiv> \<exists>h\<in>set header. EqualFold h ''Notes''"

abbreviation duration_indices :: "row \<Rightarrow> nat \<Rightarrow> nat \<Rightarrow> nat \<Rightarrow> bool" where
  "duration_indices header fi bi ti \<equiv>
     find_last (\<lambda>h. TrimSpace h = ''FooDuration'') header = Some fi
     \<and> find_last (\<lambda>h. TrimSpace h = ''BarDuration'') header = Some bi
     \<and> find_last (\<lambda>h. TrimSpace h = ''TotalDuration'') header = Some ti"

abbreviation rows_reach :: "row list \<Rightarrow> nat \<Rightarrow> nat \<Rightarrow> nat \<Rightarrow> bool" where
  "rows_reach rest fi bi ti \<equiv> \<forall>r\<in>set rest. fi < length r \<and> bi < length r \<and> ti < length r"

text \<open>
  A stage passes a table on when it returns a table with the same header and data rows of
  the same lengths.
\<close>

abbreviation passes :: "row \<Rightarrow> row list \<Rightarrow> outcome \<Rightarrow> bool" where
  "passes header rest out \<equiv>
     \<exists>updated ws. out = Ok (header # updated) ws \<and> map length updated = map length rest"

section \<open>Evaluating the library functions\<close>

lemmas utf8_eval =
  RuneError_def ValidString_def front_ok_def runes.simps DecodeRune.simps is_cont_def
  second_ok_def second_range_def Let_def

lemmas fold_eval = EqualFold_def fold_eq_def SimpleFold_def

lemmas trim_eval = TrimSpace_def space_rune_def IsSpace_def

section \<open>The empty table\<close>

text \<open>
  Claim C10. On the table without rows, which has no header, each of the seven stages
  returns the table as it is, without an error and without a warning, whatever the time
  zone database and the case table are.
\<close>

theorem empty_table_unchanged:
  "ProcessTimestamp db [] = Ok [] []
   \<and> ProcessZIPs [] = Ok [] []
   \<and> ProcessFirstName tbl [] = Ok [] []
   \<and> ProcessAddress [] = Ok [] []
   \<and> ProcessDurations [] = Ok [] []
   \<and> ProcessTotalDuration [] = Ok [] []
   \<and> ProcessNotes [] = Ok [] []"
  by (simp add: ProcessTimestamp_def ProcessZIPs_def ProcessFirstName_def ProcessAddress_def
      ProcessDurations_def ProcessTotalDuration_def ProcessNotes_def)

section \<open>Rows shorter than the header\<close>

text \<open>
  Six of the seven loop bodies compare the column index with the length of the row first:
  a row without a cell at the index comes out as it went in, with no warning.
\<close>

lemma guarded_bodies_pass_short_rows:
  assumes "length r \<le> i"
  shows "timestamp_body lp le i r = Some (r, [])"
    and "zip_body i r = Some (r, [])"
    and "firstname_body tbl i r = Some (r, [])"
    and "address_body i r = Some (r, [])"
    and "notes_body clean i r = Some (r, [])"
    and "length r \<le> j \<Longrightarrow> durations_body i j r = Some (r, [])"
  using assms
  by (simp_all add: timestamp_body_def zip_body_def firstname_body_def address_body_def
      notes_body_def durations_body_def convert_foo_def convert_bar_def)

text \<open>The body of the TotalDuration loop has no such comparison.\<close>

lemma total_body_short_row:
  "length r \<le> fooIndex \<or> length r \<le> barIndex \<or> length r \<le> totalIndex
     \<Longrightarrow> total_body fooIndex barIndex totalIndex r = None"
  by (auto simp add: total_body_def split: option.splits)

lemma rows_loop_panics:
  "r \<in> set rest \<Longrightarrow> body r = None \<Longrightarrow> rows_loop body rest = None"
  by (induction rest) (auto split: option.splits)

text \<open>
  Claim C1, at the input where the code departs from it. The table has the three duration
  columns and one data row with a single cell. The other stages would pass such a row
  through; the TotalDuration stage reads the cell at the index of FooDuration, which the
  row has, then the cell at the index of BarDuration, which it has not, and panics.
\<close>

theorem total_duration_short_row_panics:
  "ProcessTotalDuration
     [[''FooDuration'', ''BarDuration'', ''TotalDuration''], [''1.000'']] = Panic"
proof -
  have foo: "TrimSpace ''FooDuration'' = ''FooDuration''"
    by (simp add: trim_eval utf8_eval)
  have bar: "TrimSpace ''BarDuration'' = ''BarDuration''"
    by (simp add: trim_eval utf8_eval)
  have total: "TrimSpace ''TotalDuration'' = ''TotalDuration''"
    by (simp add: trim_eval utf8_eval)
  show ?thesis
    by (simp add: ProcessTotalDuration_def find_last_def foo bar total run_stage_def
        total_body_def)
qed

section \<open>A missing column is fatal\<close>

lemma find_first_None: "find_first P hs = None \<longleftrightarrow> (\<forall>h\<in>set hs. \<not> P h)"
  by (induction hs) auto

lemma find_last_from_None:
  "find_last_from i P hs idx = None \<longleftrightarrow> idx = None \<and> (\<forall>h\<in>set hs. \<not> P h)"
  by (induction hs arbitrary: i idx) auto

lemma find_last_None: "find_last P hs = None \<longleftrightarrow> (\<forall>h\<in>set hs. \<not> P h)"
  by (simp add: find_last_def find_last_from_None)

lemma run_stage_not_err: "\<not> is_err (run_stage header body rest)"
  by (simp add: run_stage_def split: option.splits prod.splits)

lemma timestamp_err:
  "is_err (ProcessTimestamp db (header # rest)) \<longleftrightarrow>
     ''Timestamp'' \<notin> set header \<or> db ''America/Los_Angeles'' = None
     \<or> db ''America/New_York'' = None"
proof (cases "find_first (\<lambda>h. h = ''Timestamp'') header")
  case None
  then show ?thesis
    using find_first_None [of "\<lambda>h. h = ''Timestamp''" header]
    by (auto simp add: ProcessTimestamp_def)
next
  case (Some i)
  then have "''Timestamp'' \<in> set header"
    using find_first_None [of "\<lambda>h. h = ''Timestamp''" header] by auto
  with Some show ?thesis
    by (auto simp add: ProcessTimestamp_def run_stage_not_err split: option.splits)
qed

lemma first_stage_err:
  assumes "\<And>records. stage records =
     (case records of
        [] \<Rightarrow> Ok records []
      | header # rest \<Rightarrow>
          (case find_first P header of
             None \<Rightarrow> Err e
           | Some i \<Rightarrow> run_stage header (body i) rest))"
  shows "is_err (stage (header # rest)) \<longleftrightarrow> (\<forall>h\<in>set header. \<not> P h)"
    and "(\<forall>h\<in>set header. \<not> P h) \<Longrightarrow> stage (header # rest) = Err e"
  using find_first_None [of P header]
  by (auto simp add: assms run_stage_not_err split: option.splits)

lemma durations_err:
  "is_err (ProcessDurations (header # rest)) \<longleftrightarrow>
     (\<forall>h\<in>set header. TrimSpace h \<noteq> ''FooDuration'')
     \<or> (\<forall>h\<in>set header. TrimSpace h \<noteq> ''BarDuration'')"
  using find_last_None [of "\<lambda>h. TrimSpace h = ''FooDuration''" header]
    find_last_None [of "\<lambda>h. TrimSpace h = ''BarDuration''" header]
  by (auto simp add: ProcessDurations_def run_stage_not_err split: option.splits)

lemma total_duration_err:
  "is_err (ProcessTotalDuration (header # rest)) \<longleftrightarrow>
     (\<forall>h\<in>set header. TrimSpace h \<noteq> ''FooDuration'')
     \<or> (\<forall>h\<in>set header. TrimSpace h \<noteq> ''BarDuration'')
     \<or> (\<forall>h\<in>set header. TrimSpace h \<noteq> ''TotalDuration'')"
  using find_last_None [of "\<lambda>h. TrimSpace h = ''FooDuration''" header]
    find_last_None [of "\<lambda>h. TrimSpace h = ''BarDuration''" header]
    find_last_None [of "\<lambda>h. TrimSpace h = ''TotalDuration''" header]
  by (auto simp add: ProcessTotalDuration_def run_stage_not_err split: option.splits)

lemma and_then_err:
  "is_err (and_then out stage) \<longleftrightarrow>
     is_err out \<or> (\<exists>records ws. out = Ok records ws \<and> is_err (stage records))"
  by (cases out) (auto split: outcome.splits)

lemma and_then_aborts: "is_err out \<Longrightarrow> and_then out stage = out"
  by (cases out) simp_all

lemma pipeline_aborts_at_timestamp:
  "is_err (ProcessTimestamp db records) \<Longrightarrow> pipeline db tbl records = ProcessTimestamp db records"
  by (simp add: pipeline_def and_then_aborts)

lemma guarded_bodies_total:
  "\<exists>r' w. timestamp_body lp le i r = Some (r', w) \<and> length r' = length r"
  "\<exists>r' w. zip_body i r = Some (r', w) \<and> length r' = length r"
  "\<exists>r' w. firstname_body tbl i r = Some (r', w) \<and> length r' = length r"
  "\<exists>r' w. address_body i r = Some (r', w) \<and> length r' = length r"
  "\<exists>r' w. notes_body transform_String i r = Some (r', w) \<and> length r' = length r"
  "\<exists>r' w. durations_body i j r = Some (r', w) \<and> length r' = length r"
  by (auto simp add: timestamp_body_def zip_body_def firstname_body_def address_body_def
      notes_body_def durations_body_def convert_foo_def convert_bar_def Let_def
      split: option.splits list.splits sum.splits)

lemma total_body_reaches:
  "fi < length r \<Longrightarrow> bi < length r \<Longrightarrow> ti < length r \<Longrightarrow>
     \<exists>r' w. total_body fi bi ti r = Some (r', w) \<and> length r' = length r"
  by (auto simp add: total_body_def split: option.splits)

lemma rows_loop_total:
  "(\<And>r. r \<in> set rest \<Longrightarrow> \<exists>r' w. body r = Some (r', w) \<and> length r' = length r) \<Longrightarrow>
     \<exists>updated ws. rows_loop body rest = Some (updated, ws)
       \<and> map length updated = map length rest"
proof (induction rest)
  case Nil
  show ?case by simp
next
  case (Cons r rest)
  obtain r' w where r: "body r = Some (r', w)" "length r' = length r"
    using Cons.prems [of r] by auto
  obtain updated ws where u: "rows_loop body rest = Some (updated, ws)"
      "map length updated = map length rest"
    using Cons.IH Cons.prems by auto
  show ?case using r u by simp
qed

lemma run_stage_passes:
  "(\<And>r. r \<in> set rest \<Longrightarrow> \<exists>r' w. body r = Some (r', w) \<and> length r' = length r) \<Longrightarrow>
     \<exists>updated ws. run_stage header body rest = Ok (header # updated) ws
       \<and> map length updated = map length rest"
  using rows_loop_total [of rest body] by (auto simp add: run_stage_def)

lemma run_stage_panics:
  "r \<in> set rest \<Longrightarrow> body r = None \<Longrightarrow> run_stage header body rest = Panic"
  by (simp add: run_stage_def rows_loop_panics)

lemma same_lengths_ball:
  "map length rest' = map length rest \<Longrightarrow>
     (\<forall>r\<in>set rest'. Q (length r)) = (\<forall>r\<in>set rest. Q (length r))"
proof -
  assume "map length rest' = map length rest"
  then have "set (map length rest') = set (map length rest)" by simp
  then have "(\<forall>n\<in>set (map length rest'). Q n) = (\<forall>n\<in>set (map length rest). Q n)" by simp
  then show ?thesis by simp
qed

lemma first_stage_passes:
  assumes "\<And>records. stage records =
     (case records of
        [] \<Rightarrow> Ok records []
      | header # rest \<Rightarrow>
          (case find_first P header of
             None \<Rightarrow> Err e
           | Some i \<Rightarrow> run_stage header (body i) rest))"
    and "\<And>i r. \<exists>r' w. body i r = Some (r', w) \<and> length r' = length r"
    and "\<exists>h\<in>set header. P h"
  shows "\<exists>updated ws. stage (header # rest) = Ok (header # updated) ws
           \<and> map length updated = map length rest"
proof -
  obtain i where "find_first P header = Some i"
    using assms(3) find_first_None [of P header] by auto
  then show ?thesis
    using run_stage_passes [of rest "body i" header] assms(2) by (simp add: assms(1))
qed

lemma timestamp_passes:
  assumes "''Timestamp'' \<in> set header" "db ''America/Los_Angeles'' \<noteq> None"
    "db ''America/New_York'' \<noteq> None"
  shows "\<exists>updated ws. ProcessTimestamp db (header # rest) = Ok (header # updated) ws
           \<and> map length updated = map length rest"
proof -
  obtain i where "find_first (\<lambda>h. h = ''Timestamp'') header = Some i"
    using assms(1) find_first_None [of "\<lambda>h. h = ''Timestamp''" header] by auto
  moreover obtain lp le where "db ''America/Los_Angeles'' = Some lp" "db ''America/New_York'' = Some le"
    using assms(2,3) by auto
  ultimately show ?thesis
    using run_stage_passes [of rest "timestamp_body lp le i" header] guarded_bodies_total(1)
    by (simp add: ProcessTimestamp_def)
qed

lemma durations_passes:
  assumes "\<exists>h\<in>set header. TrimSpace h = ''FooDuration''"
    "\<exists>h\<in>set header. TrimSpace h = ''BarDuration''"
  shows "\<exists>updated ws. ProcessDurations (header # rest) = Ok (header # updated) ws
           \<and> map length updated = map length rest"
proof -
  obtain i j where "find_last (\<lambda>h. TrimSpace h = ''FooDuration'') header = Some i"
     "find_last (\<lambda>h. TrimSpace h = ''BarDuration'') header = Some j"
    using assms find_last_None [of "\<lambda>h. TrimSpace h = ''FooDuration''" header]
      find_last_None [of "\<lambda>h. TrimSpace h = ''BarDuration''" header] by auto
  then show ?thesis
    using run_stage_passes [of rest "durations_body i j" header] guarded_bodies_total(6)
    by (simp add: ProcessDurations_def)
qed

lemma total_duration_passes:
  assumes "find_last (\<lambda>h. TrimSpace h = ''FooDuration'') header = Some fi"
    "find_last (\<lambda>h. TrimSpace h = ''BarDuration'') header = Some bi"
    "find_last (\<lambda>h. TrimSpace h = ''TotalDuration'') header = Some ti"
    "\<forall>r\<in>set rest. fi < length r \<and> bi < length r \<and> ti < length r"
  shows "\<exists>updated ws. ProcessTotalDuration (header # rest) = Ok (header # updated) ws
           \<and> map length updated = map length rest"
  using run_stage_passes [of rest "total_body fi bi ti" header] total_body_reaches assms
  by (simp add: ProcessTotalDuration_def)

lemma total_duration_panics:
  assumes "find_last (\<lambda>h. TrimSpace h = ''FooDuration'') header = Some fi"
    "find_last (\<lambda>h. TrimSpace h = ''BarDuration'') header = Some bi"
    "find_last (\<lambda>h. TrimSpace h = ''TotalDuration'') header = Some ti"
    "\<not> (\<forall>r\<in>set rest. fi < length r \<and> bi < length r \<and> ti < length r)"
  shows "ProcessTotalDuration (header # rest) = Panic"
proof -
  obtain r where r: "r \<in> set rest" "length r \<le> fi \<or> length r \<le> bi \<or> length r \<le> ti"
    using assms(4) by (auto simp add: not_less)
  show ?thesis
    using run_stage_panics [of r rest "total_body fi bi ti" header] r(1)
      total_body_short_row [OF r(2)] assms(1-3)
    by (simp add: ProcessTotalDuration_def)
qed

lemma and_then_passes:
  assumes "\<exists>updated ws. out = Ok (header # updated) ws \<and> map length updated = map length rest"
    and "\<And>rest'. map length rest' = map length rest \<Longrightarrow>
           \<exists>updated ws. stage (header # rest') = Ok (header # updated) ws
             \<and> map length updated = map length rest'"
  shows "\<exists>updated ws. and_then out stage = Ok (header # updated) ws
           \<and> map length updated = map length rest"
proof -
  obtain u1 w1 where o: "out = Ok (header # u1) w1" "map length u1 = map length rest"
    using assms(1) by auto
  obtain u2 w2 where s: "stage (header # u1) = Ok (header # u2) w2" "map length u2 = map length u1"
    using assms(2) [OF o(2)] by auto
  show ?thesis using o s by simp
qed

lemma and_then_fails:
  assumes "\<exists>updated ws. out = Ok (header # updated) ws \<and> map length updated = map length rest"
    and "\<And>rest'. map length rest' = map length rest \<Longrightarrow> stage (header # rest') = bad"
    and "bad = Err e \<or> bad = Panic"
  shows "and_then out stage = bad"
proof -
  obtain u1 w1 where o: "out = Ok (header # u1) w1" "map length u1 = map length rest"
    using assms(1) by auto
  show ?thesis using o assms(2) [OF o(2)] assms(3) by auto
qed

lemma zip_passes: "has_zip header \<Longrightarrow> passes header rest (ProcessZIPs (header # rest))"
  using first_stage_passes [of ProcessZIPs, OF ProcessZIPs_def guarded_bodies_total(2)] by simp

lemma fullname_passes:
  "has_fullname header \<Longrightarrow> passes header rest (ProcessFirstName tbl (header # rest))"
  using first_stage_passes [of "ProcessFirstName tbl", OF ProcessFirstName_def guarded_bodies_total(3)]
  by simp

lemma address_passes: "has_address header \<Longrightarrow> passes header rest (ProcessAddress (header # rest))"
  using first_stage_passes [of ProcessAddress, OF ProcessAddress_def guarded_bodies_total(4)] by simp

lemma notes_passes: "has_notes header \<Longrightarrow> passes header rest (ProcessNotes (header # rest))"
  using first_stage_passes [where stage = ProcessNotes and body = "notes_body transform_String",
      OF ProcessNotes_def guarded_bodies_total(5)] by simp

lemma through_zip:
  assumes "has_timestamp header" "zones_load db" "has_zip header"
  shows "passes header rest (and_then (ProcessTimestamp db (header # rest)) ProcessZIPs)"
  using assms by (intro and_then_passes timestamp_passes zip_passes) simp_all

lemma through_fullname:
  assumes "has_timestamp header" "zones_load db" "has_zip header" "has_fullname header"
  shows "passes header rest
     (and_then (and_then (ProcessTimestamp db (header # rest)) ProcessZIPs) (ProcessFirstName tbl))"
  using assms by (intro and_then_passes through_zip fullname_passes) simp_all

lemma through_address:
  assumes "has_timestamp header" "zones_load db" "has_zip header" "has_fullname header"
    "has_address header"
  shows "passes header rest
     (and_then (and_then (and_then (ProcessTimestamp db (header # rest)) ProcessZIPs)
        (ProcessFirstName tbl)) ProcessAddress)"
  using assms by (intro and_then_passes through_fullname address_passes) simp_all

lemma through_durations:
  assumes "has_timestamp header" "zones_load db" "has_zip header" "has_fullname header"
    "has_address header" "has_foo header" "has_bar header"
  shows "passes header rest
     (and_then (and_then (and_then (and_then (ProcessTimestamp db (header # rest)) ProcessZIPs)
        (ProcessFirstName tbl)) ProcessAddress) ProcessDurations)"
  using assms by (intro and_then_passes through_address durations_passes) simp_all

lemma through_total:
  assumes "has_timestamp header" "zones_load db" "has_zip header" "has_fullname header"
    "has_address header" "duration_indices header fi bi ti" "rows_reach rest fi bi ti"
  shows "passes header rest
     (and_then (and_then (and_then (and_then (and_then (ProcessTimestamp db (header # rest))
        ProcessZIPs) (ProcessFirstName tbl)) ProcessAddress) ProcessDurations)
        ProcessTotalDuration)"
proof (rule and_then_passes)
  have "has_foo header" "has_bar header"
    using assms(6) find_last_None [of "\<lambda>h. TrimSpace h = ''FooDuration''" header]
      find_last_None [of "\<lambda>h. TrimSpace h = ''BarDuration''" header] by auto
  then show "passes header rest
     (and_then (and_then (and_then (and_then (ProcessTimestamp db (header # rest)) ProcessZIPs)
        (ProcessFirstName tbl)) ProcessAddress) ProcessDurations)"
    using assms by (intro through_durations) simp_all
next
  fix rest' :: "row list"
  assume "map length rest' = map length rest"
  then have "rows_reach rest' fi bi ti"
    using assms(7) same_lengths_ball [of rest' rest "\<lambda>n. fi < n \<and> bi < n \<and> ti < n"] by simp
  then show "passes header rest' (ProcessTotalDuration (header # rest'))"
    using assms(6) by (intro total_duration_passes) simp_all
qed

text \<open>
  Claim C2, amended. The table has a header. A stage whose column is not in the header,
  under the stage's way of comparing names (the exact name for Timestamp, the name without
  regard to case for ZIP, FullName, Address and Notes, the trimmed header cell for the
  duration columns), returns its column error, which carries no table and no warning, and
  the pipeline stops there: when the stages before it have what they need, the result of the
  pipeline is that error, and no later stage runs. The Timestamp stage also returns an
  error, and stops the pipeline, when its column is in the header and one of its two time
  zones cannot be loaded. A stage that has its column, and for the Timestamp stage both
  time zones, returns no error: it returns a table with the same header. The TotalDuration
  stage does so when every data row has a cell at each of its three columns; on a row
  without one of them it panics. With every column in the header and both time zones
  loaded, the pipeline returns a table when every data row has the three duration cells,
  and panics otherwise.
\<close>

theorem missing_column_is_fatal:
  "(\<not> has_timestamp header \<longrightarrow>
      ProcessTimestamp db (header # rest) = Err (ColumnNotFound ''timestamp column not found'')
      \<and> pipeline db tbl (header # rest) = Err (ColumnNotFound ''timestamp column not found''))
   \<and> (has_timestamp header \<and> db ''America/Los_Angeles'' = None \<longrightarrow>
      ProcessTimestamp db (header # rest) = Err (TzLoadFailed ''failed to load Pacific timezone'')
      \<and> pipeline db tbl (header # rest) = Err (TzLoadFailed ''failed to load Pacific timezone''))
   \<and> (has_timestamp header \<and> db ''America/Los_Angeles'' \<noteq> None
        \<and> db ''America/New_York'' = None \<longrightarrow>
      ProcessTimestamp db (header # rest) = Err (TzLoadFailed ''failed to load Eastern timezone'')
      \<and> pipeline db tbl (header # rest) = Err (TzLoadFailed ''failed to load Eastern timezone''))
   \<and> (has_timestamp header \<and> zones_load db \<longrightarrow>
      (\<exists>updated ws. ProcessTimestamp db (header # rest) = Ok (header # updated) ws))
   \<and> (\<not> has_zip header \<longrightarrow>
      ProcessZIPs (header # rest) = Err (ColumnNotFound ''ZIP column not found''))
   \<and> (has_timestamp header \<and> zones_load db \<and> \<not> has_zip header \<longrightarrow>
      pipeline db tbl (header # rest) = Err (ColumnNotFound ''ZIP column not found''))
   \<and> (has_zip header \<longrightarrow>
      (\<exists>updated ws. ProcessZIPs (header # rest) = Ok (header # updated) ws))
   \<and> (\<not> has_fullname header \<longrightarrow>
      ProcessFirstName tbl (header # rest) = Err (ColumnNotFound ''FullName column not found''))
   \<and> (has_timestamp header \<and> zones_load db \<and> has_zip header \<and> \<not> has_fullname header \<longrightarrow>
      pipeline db tbl (header # rest) = Err (ColumnNotFound ''FullName column not found''))
   \<and> (has_fullname header \<longrightarrow>
      (\<exists>updated ws. ProcessFirstName tbl (header # rest) = Ok (header # updated) ws))
   \<and> (\<not> has_address header \<longrightarrow>
      ProcessAddress (header # rest) = Err (ColumnNotFound ''address column not found''))
   \<and> (has_timestamp header \<and> zones_load db \<and> has_zip header \<and> has_fullname header
        \<and> \<not> has_address header \<longrightarrow>
      pipeline db tbl (header # rest) = Err (ColumnNotFound ''address column not found''))
   \<and> (has_address header \<longrightarrow>
      (\<exists>updated ws. ProcessAddress (header # rest) = Ok (header # updated) ws))
   \<and> (\<not> has_foo header \<or> \<not> has_bar header \<longrightarrow>
      ProcessDurations (header # rest)
        = Err (ColumnNotFound ''FooDuration or BarDuration column not found''))
   \<and> (has_timestamp header \<and> zones_load db \<and> has_zip header \<and> has_fullname header
        \<and> has_address header \<and> (\<not> has_foo header \<or> \<not> has_bar header) \<longrightarrow>
      pipeline db tbl (header # rest)
        = Err (ColumnNotFound ''FooDuration or BarDuration column not found''))
   \<and> (has_foo header \<and> has_bar header \<longrightarrow>
      (\<exists>updated ws. ProcessDurations (header # rest) = Ok (header # updated) ws))
   \<and> (\<not> has_foo header \<or> \<not> has_bar header \<or> \<not> has_total header \<longrightarrow>
      ProcessTotalDuration (header # rest)
        = Err (ColumnNotFound ''required duration columns not found''))
   \<and> (has_timestamp header \<and> zones_load db \<and> has_zip header \<and> has_fullname header
        \<and> has_address header \<and> has_foo header \<and> has_bar header \<and> \<not> has_total header \<longrightarrow>
      pipeline db tbl (header # rest)
        = Err (ColumnNotFound ''required duration columns not found''))
   \<and> (duration_indices header fi bi ti \<and> rows_reach rest fi bi ti \<longrightarrow>
      (\<exists>updated ws. ProcessTotalDuration (header # rest) = Ok (header # updated) ws))
   \<and> (duration_indices header fi bi ti \<and> \<not> rows_reach rest fi bi ti \<longrightarrow>
      ProcessTotalDuration (header # rest) = Panic)
   \<and> (\<not> has_notes header \<longrightarrow>
      ProcessNotes (header # rest) = Err (ColumnNotFound ''notes column not found''))
   \<and> (has_timestamp header \<and> zones_load db \<and> has_zip header \<and> has_fullname header
        \<and> has_address header \<and> duration_indices header fi bi ti \<and> rows_reach rest fi bi ti
        \<and> \<not> has_notes header \<longrightarrow>
      pipeline db tbl (header # rest) = Err (ColumnNotFound ''notes column not found''))
   \<and> (has_notes header \<longrightarrow>
      (\<exists>updated ws. ProcessNotes (header # rest) = Ok (header # updated) ws))
   \<and> (has_timestamp header \<and> zones_load db \<and> has_zip header \<and> has_fullname header
        \<and> has_address header \<and> duration_indices header fi bi ti \<and> rows_reach rest fi bi ti
        \<and> has_notes header \<longrightarrow>
      (\<exists>updated ws. pipeline db tbl (header # rest) = Ok (header # updated) ws))
   \<and> (has_timestamp header \<and> zones_load db \<and> has_zip header \<and> has_fullname header
        \<and> has_address header \<and> duration_indices header fi bi ti
        \<and> \<not> rows_reach rest fi bi ti \<longrightarrow>
      pipeline db tbl (header # rest) = Panic)"
proof -
  let ?records = "header # rest"
  have ts_absent: "ProcessTimestamp db ?records = Err (ColumnNotFound ''timestamp column not found'')"
    if "\<not> has_timestamp header"
    using that find_first_None [of "\<lambda>h. h = ''Timestamp''" header]
    by (auto simp add: ProcessTimestamp_def)
  have found: "\<exists>i. find_first (\<lambda>h. h = ''Timestamp'') header = Some i" if "has_timestamp header"
    using that find_first_None [of "\<lambda>h. h = ''Timestamp''" header] by auto
  have pacific: "ProcessTimestamp db ?records = Err (TzLoadFailed ''failed to load Pacific timezone'')"
    if "has_timestamp header" "db ''America/Los_Angeles'' = None"
    using found [OF that(1)] that(2) by (auto simp add: ProcessTimestamp_def)
  have eastern: "ProcessTimestamp db ?records = Err (TzLoadFailed ''failed to load Eastern timezone'')"
    if "has_timestamp header" "db ''America/Los_Angeles'' \<noteq> None" "db ''America/New_York'' = None"
    using found [OF that(1)] that(2,3) by (auto simp add: ProcessTimestamp_def)
  have stop: "pipeline db tbl ?records = Err e" if "ProcessTimestamp db ?records = Err e" for e
    using that by (simp add: pipeline_def)
  note zip = first_stage_err(2) [of ProcessZIPs, OF ProcessZIPs_def]
  note name = first_stage_err(2) [of "ProcessFirstName tbl", OF ProcessFirstName_def]
  note addr = first_stage_err(2) [of ProcessAddress, OF ProcessAddress_def]
  note nts = first_stage_err(2) [where stage = ProcessNotes and body = "notes_body transform_String",
      OF ProcessNotes_def]
  have dur: "ProcessDurations (header # rest')
        = Err (ColumnNotFound ''FooDuration or BarDuration column not found'')"
    if "\<not> has_foo header \<or> \<not> has_bar header" for rest'
    using that find_last_None [of "\<lambda>h. TrimSpace h = ''FooDuration''" header]
      find_last_None [of "\<lambda>h. TrimSpace h = ''BarDuration''" header]
    by (auto simp add: ProcessDurations_def split: option.splits)
  have tot: "ProcessTotalDuration (header # rest')
        = Err (ColumnNotFound ''required duration columns not found'')"
    if "\<not> has_foo header \<or> \<not> has_bar header \<or> \<not> has_total header" for rest'
    using that find_last_None [of "\<lambda>h. TrimSpace h = ''FooDuration''" header]
      find_last_None [of "\<lambda>h. TrimSpace h = ''BarDuration''" header]
      find_last_None [of "\<lambda>h. TrimSpace h = ''TotalDuration''" header]
    by (auto simp add: ProcessTotalDuration_def split: option.splits)
  have named: "has_foo header \<and> has_bar header" if "duration_indices header fi bi ti"
    using that find_last_None [of "\<lambda>h. TrimSpace h = ''FooDuration''" header]
      find_last_None [of "\<lambda>h. TrimSpace h = ''BarDuration''" header] by auto
  have p_zip: "pipeline db tbl ?records = Err (ColumnNotFound ''ZIP column not found'')"
    if "has_timestamp header" "zones_load db" "\<not> has_zip header"
    using and_then_fails [OF timestamp_passes, of header db rest ProcessZIPs
        "Err (ColumnNotFound ''ZIP column not found'')"] that zip [of header]
    by (simp add: pipeline_def)
  have p_name: "pipeline db tbl ?records = Err (ColumnNotFound ''FullName column not found'')"
    if "has_timestamp header" "zones_load db" "has_zip header" "\<not> has_fullname header"
    using and_then_fails [OF through_zip, of header db rest "ProcessFirstName tbl"
        "Err (ColumnNotFound ''FullName column not found'')"] that name [of header]
    by (simp add: pipeline_def)
  have p_addr: "pipeline db tbl ?records = Err (ColumnNotFound ''address column not found'')"
    if "has_timestamp header" "zones_load db" "has_zip header" "has_fullname header"
      "\<not> has_address header"
    using and_then_fails [OF through_fullname, of header db rest ProcessAddress
        "Err (ColumnNotFound ''address column not found'')" _ tbl] that addr [of header]
    by (simp add: pipeline_def)
  have p_dur: "pipeline db tbl ?records
        = Err (ColumnNotFound ''FooDuration or BarDuration column not found'')"
    if "has_timestamp header" "zones_load db" "has_zip header" "has_fullname header"
      "has_address header" "\<not> has_foo header \<or> \<not> has_bar header"
    using and_then_fails [OF through_address, of header db rest ProcessDurations
        "Err (ColumnNotFound ''FooDuration or BarDuration column not found'')" _ tbl]
      that(1-5) dur [OF that(6)]
    by (simp add: pipeline_def)
  have p_tot: "pipeline db tbl ?records
        = Err (ColumnNotFound ''required duration columns not found'')"
    if "has_timestamp header" "zones_load db" "has_zip header" "has_fullname header"
      "has_address header" "has_foo header" "has_bar header" "\<not> has_total header"
    using and_then_fails [OF through_durations, of header db rest ProcessTotalDuration
        "Err (ColumnNotFound ''required duration columns not found'')" _ tbl]
      that(1-7) tot [of] that(8)
    by (simp add: pipeline_def)
  have p_notes: "pipeline db tbl ?records = Err (ColumnNotFound ''notes column not found'')"
    if "has_timestamp header" "zones_load db" "has_zip header" "has_fullname header"
      "has_address header" "duration_indices header fi bi ti" "rows_reach rest fi bi ti"
      "\<not> has_notes header"
    using and_then_fails [OF through_total, of header db fi bi ti rest ProcessNotes
        "Err (ColumnNotFound ''notes column not found'')" _ tbl]
      that(1-7) nts [of header] that(8)
    by (simp add: pipeline_def)
  have p_ok: "\<exists>updated ws. pipeline db tbl ?records = Ok (header # updated) ws"
    if "has_timestamp header" "zones_load db" "has_zip header" "has_fullname header"
      "has_address header" "duration_indices header fi bi ti" "rows_reach rest fi bi ti"
      "has_notes header"
  proof -
    have "passes header rest
       (and_then (and_then (and_then (and_then (and_then (and_then
          (ProcessTimestamp db ?records) ProcessZIPs) (ProcessFirstName tbl)) ProcessAddress)
          ProcessDurations) ProcessTotalDuration) ProcessNotes)"
      using that by (intro and_then_passes through_total notes_passes) simp_all
    then show ?thesis unfolding pipeline_def by blast
  qed
  have panics: "ProcessTotalDuration (header # rest') = Panic"
    if "duration_indices header fi bi ti" "\<not> rows_reach rest fi bi ti"
      "map length rest' = map length rest" for rest'
  proof -
    have "\<not> rows_reach rest' fi bi ti"
      using that(2) same_lengths_ball [OF that(3), of "\<lambda>n. fi < n \<and> bi < n \<and> ti < n"] by simp
    then show ?thesis using that(1) by (intro total_duration_panics) simp_all
  qed
  have p_panic: "pipeline db tbl ?records = Panic"
    if "has_timestamp header" "zones_load db" "has_zip header" "has_fullname header"
      "has_address header" "duration_indices header fi bi ti" "\<not> rows_reach rest fi bi ti"
  proof -
    have "and_then (and_then (and_then (and_then (and_then (ProcessTimestamp db ?records)
        ProcessZIPs) (ProcessFirstName tbl)) ProcessAddress) ProcessDurations)
        ProcessTotalDuration = Panic"
      using that(1-5) named [OF that(6)] panics [OF that(6,7)]
      by (intro and_then_fails [OF through_durations]) simp_all
    then show ?thesis by (simp add: pipeline_def)
  qed
  show ?thesis
    apply (intro conjI impI)
    subgoal using ts_absent by simp
    subgoal using ts_absent stop by simp
    subgoal using pacific by simp
    subgoal using pacific stop by simp
    subgoal using eastern by simp
    subgoal using eastern stop by simp
    subgoal using timestamp_passes [of header db rest] by auto
    subgoal using zip [of header rest] by simp
    subgoal using p_zip by simp
    subgoal using zip_passes [of header rest] by auto
    subgoal using name [of header rest] by simp
    subgoal using p_name by simp
    subgoal using fullname_passes [where header = header and rest = rest and tbl = tbl] by auto
    subgoal using addr [of header rest] by simp
    subgoal using p_addr by simp
    subgoal using address_passes [of header rest] by auto
    subgoal using dur [of rest] by simp
    subgoal using p_dur by simp
    subgoal using durations_passes [of header rest] by auto
    subgoal using tot [of rest] by simp
    subgoal using p_tot by simp
    subgoal using total_duration_passes [of header fi bi ti rest] by auto
    subgoal using total_duration_panics [of header fi bi ti rest] by simp
    subgoal using nts [of header rest] by simp
    subgoal using p_notes by simp
    subgoal using notes_passes [of header rest] by auto
    subgoal using p_ok by simp
    subgoal using p_panic by simp
    done
qed

theorem missing_column_is_fatal_witness:
  "pipeline tzdb_2024 id ([''Name''] # [[''3/10/24 2:30:00 PM'', ''123'', ''ada lovelace'', ''1 Main St'', ''1:02:03.500'', ''0:00:01'', ''x'', ''caf'']])
       = Err (ColumnNotFound ''timestamp column not found'')
   \<and> pipeline (\<lambda>name. None) id ([''Timestamp'', ''ZIP'', ''FullName'', ''Address'', ''FooDuration'', ''BarDuration'', ''TotalDuration'', ''Notes''] # [[''3/10/24 2:30:00 PM'', ''123'', ''ada lovelace'', ''1 Main St'', ''1:02:03.500'', ''0:00:01'', ''x'', ''caf'']])
       = Err (TzLoadFailed ''failed to load Pacific timezone'')
   \<and> pipeline (\<lambda>name. if name = ''America/Los_Angeles'' then Some Los_Angeles_2024 else None) id ([''Timestamp'', ''ZIP'', ''FullName'', ''Address'', ''FooDuration'', ''BarDuration'', ''TotalDuration'', ''Notes''] # [[''3/10/24 2:30:00 PM'', ''123'', ''ada lovelace'', ''1 Main St'', ''1:02:03.500'', ''0:00:01'', ''x'', ''caf'']])
       = Err (TzLoadFailed ''failed to load Eastern timezone'')
   \<and> pipeline tzdb_2024 id ([''Timestamp''] # [[''3/10/24 2:30:00 PM'', ''123'', ''ada lovelace'', ''1 Main St'', ''1:02:03.500'', ''0:00:01'', ''x'', ''caf'']])
       = Err (ColumnNotFound ''ZIP column not found'')
   \<and> pipeline tzdb_2024 id ([''Timestamp'', ''ZIP''] # [[''3/10/24 2:30:00 PM'', ''123'', ''ada lovelace'', ''1 Main St'', ''1:02:03.500'', ''0:00:01'', ''x'', ''caf'']])
       = Err (ColumnNotFound ''FullName column not found'')
   \<and> pipeline tzdb_2024 id ([''Timestamp'', ''ZIP'', ''FullName''] # [[''3/10/24 2:30:00 PM'', ''123'', ''ada lovelace'', ''1 Main St'', ''1:02:03.500'', ''0:00:01'', ''x'', ''caf'']])
       = Err (ColumnNotFound ''address column not found'')
   \<and> pipeline tzdb_2024 id ([''Timestamp'', ''ZIP'', ''FullName'', ''Address''] # [[''3/10/24 2:30:00 PM'', ''123'', ''ada lovelace'', ''1 Main St'', ''1:02:03.500'', ''0:00:01'', ''x'', ''caf'']])
       = Err (ColumnNotFound ''FooDuration or BarDuration column not found'')
   \<and> pipeline tzdb_2024 id ([''Timestamp'', ''ZIP'', ''FullName'', ''Address'', ''FooDuration'', ''BarDuration''] # [[''3/10/24 2:30:00 PM'', ''123'', ''ada lovelace'', ''1 Main St'', ''1:02:03.500'', ''0:00:01'', ''x'', ''caf'']])
       = Err (ColumnNotFound ''required duration columns not found'')
   \<and> pipeline tzdb_2024 id ([''Timestamp'', ''ZIP'', ''FullName'', ''Address'', ''FooDuration'', ''BarDuration'', ''TotalDuration''] # [[''3/10/24 2:30:00 PM'', ''123'', ''ada lovelace'', ''1 Main St'', ''1:02:03.500'', ''0:00:01'', ''x'']])
       = Err (ColumnNotFound ''notes column not found'')
   \<and> pipeline tzdb_2024 id ([''Timestamp'', ''ZIP'', ''FullName'', ''Address'', ''FooDuration'', ''BarDuration'', ''TotalDuration'', ''Notes''] # [[''3/10/24 2:30:00 PM'', ''123'', ''ada lovelace'', ''1 Main St'', ''1:02:03.500'', ''0:00:01'', ''x'', ''caf''], [''3/10/24 2:30:00 PM'', ''123'']])
       = Panic
   \<and> (\<exists>updated ws. pipeline tzdb_2024 id ([''Timestamp'', ''ZIP'', ''FullName'', ''Address'', ''FooDuration'', ''BarDuration'', ''TotalDuration'', ''Notes''] # [[''3/10/24 2:30:00 PM'', ''123'', ''ada lovelace'', ''1 Main St'', ''1:02:03.500'', ''0:00:01'', ''x'', ''caf'']])
       = Ok ([''Timestamp'', ''ZIP'', ''FullName'', ''Address'', ''FooDuration'', ''BarDuration'', ''TotalDuration'', ''Notes''] # updated) ws)"
proof -
  have folds:
    "\<not> EqualFold ''Timestamp'' ''ZIP''"
    "\<not> EqualFold ''Timestamp'' ''FullName''"
    "\<not> EqualFold ''Timestamp'' ''Address''"
    "\<not> EqualFold ''Timestamp'' ''Notes''"
    "EqualFold ''ZIP'' ''ZIP''"
    "\<not> EqualFold ''ZIP'' ''FullName''"
    "\<not> EqualFold ''ZIP'' ''Address''"
    "\<not> EqualFold ''ZIP'' ''Notes''"
    "\<not> EqualFold ''FullName'' ''ZIP''"
    "EqualFold ''FullName'' ''FullName''"
    "\<not> EqualFold ''FullName'' ''Address''"
    "\<not> EqualFold ''FullName'' ''Notes''"
    "\<not> EqualFold ''Address'' ''ZIP''"
    "\<not> EqualFold ''Address'' ''FullName''"
    "EqualFold ''Address'' ''Address''"
    "\<not> EqualFold ''Address'' ''Notes''"
    "\<not> EqualFold ''FooDuration'' ''ZIP''"
    "\<not> EqualFold ''FooDuration'' ''FullName''"
    "\<not> EqualFold ''FooDuration'' ''Address''"
    "\<not> EqualFold ''FooDuration'' ''Notes''"
    "\<not> EqualFold ''BarDuration'' ''ZIP''"
    "\<not> EqualFold ''BarDuration'' ''FullName''"
    "\<not> EqualFold ''BarDuration'' ''Address''"
    "\<not> EqualFold ''BarDuration'' ''Notes''"
    "\<not> EqualFold ''TotalDuration'' ''ZIP''"
    "\<not> EqualFold ''TotalDuration'' ''FullName''"
    "\<not> EqualFold ''TotalDuration'' ''Address''"
    "\<not> EqualFold ''TotalDuration'' ''Notes''"
    "\<not> EqualFold ''Notes'' ''ZIP''"
    "\<not> EqualFold ''Notes'' ''FullName''"
    "\<not> EqualFold ''Notes'' ''Address''"
    "EqualFold ''Notes'' ''Notes''"
    "\<not> EqualFold ''Name'' ''ZIP''"
    "\<not> EqualFold ''Name'' ''FullName''"
    "\<not> EqualFold ''Name'' ''Address''"
    "\<not> EqualFold ''Name'' ''Notes''"
    by (simp_all add: fold_eval utf8_eval)
  have trims:
    "TrimSpace ''Timestamp'' = ''Timestamp''"
    "TrimSpace ''ZIP'' = ''ZIP''"
    "TrimSpace ''FullName'' = ''FullName''"
    "TrimSpace ''Address'' = ''Address''"
    "TrimSpace ''FooDuration'' = ''FooDuration''"
    "TrimSpace ''BarDuration'' = ''BarDuration''"
    "TrimSpace ''TotalDuration'' = ''TotalDuration''"
    "TrimSpace ''Notes'' = ''Notes''"
    "TrimSpace ''Name'' = ''Name''"
    by (simp_all add: trim_eval utf8_eval)
  have db: "tzdb_2024 ''America/Los_Angeles'' \<noteq> None" "tzdb_2024 ''America/New_York'' \<noteq> None"
    by (simp_all add: tzdb_2024_def)
  note ev = folds trims db find_last_def
  note a = missing_column_is_fatal
    [where header = "[''Name'']"
     and rest = "[[''3/10/24 2:30:00 PM'', ''123'', ''ada lovelace'', ''1 Main St'', ''1:02:03.500'', ''0:00:01'', ''x'', ''caf'']]"
     and db = "tzdb_2024" and tbl = id and fi = 4 and bi = 5 and ti = 6]
  note b = missing_column_is_fatal
    [where header = "[''Timestamp'', ''ZIP'', ''FullName'', ''Address'', ''FooDuration'', ''BarDuration'', ''TotalDuration'', ''Notes'']"
     and rest = "[[''3/10/24 2:30:00 PM'', ''123'', ''ada lovelace'', ''1 Main St'', ''1:02:03.500'', ''0:00:01'', ''x'', ''caf'']]"
     and db = "(\<lambda>name. None)" and tbl = id and fi = 4 and bi = 5 and ti = 6]
  note c = missing_column_is_fatal
    [where header = "[''Timestamp'', ''ZIP'', ''FullName'', ''Address'', ''FooDuration'', ''BarDuration'', ''TotalDuration'', ''Notes'']"
     and rest = "[[''3/10/24 2:30:00 PM'', ''123'', ''ada lovelace'', ''1 Main St'', ''1:02:03.500'', ''0:00:01'', ''x'', ''caf'']]"
     and db = "(\<lambda>name. if name = ''America/Los_Angeles'' then Some Los_Angeles_2024 else None)" and tbl = id and fi = 4 and bi = 5 and ti = 6]
  note d = missing_column_is_fatal
    [where header = "[''Timestamp'']"
     and rest = "[[''3/10/24 2:30:00 PM'', ''123'', ''ada lovelace'', ''1 Main St'', ''1:02:03.500'', ''0:00:01'', ''x'', ''caf'']]"
     and db = "tzdb_2024" and tbl = id and fi = 4 and bi = 5 and ti = 6]
  note e = missing_column_is_fatal
    [where header = "[''Timestamp'', ''ZIP'']"
     and rest = "[[''3/10/24 2:30:00 PM'', ''123'', ''ada lovelace'', ''1 Main St'', ''1:02:03.500'', ''0:00:01'', ''x'', ''caf'']]"
     and db = "tzdb_2024" and tbl = id and fi = 4 and bi = 5 and ti = 6]
  note f = missing_column_is_fatal
    [where header = "[''Timestamp'', ''ZIP'', ''FullName'']"
     and rest = "[[''3/10/24 2:30:00 PM'', ''123'', ''ada lovelace'', ''1 Main St'', ''1:02:03.500'', ''0:00:01'', ''x'', ''caf'']]"
     and db = "tzdb_2024" and tbl = id and fi = 4 and bi = 5 and ti = 6]
  note g = missing_column_is_fatal
    [where header = "[''Timestamp'', ''ZIP'', ''FullName'', ''Address'']"
     and rest = "[[''3/10/24 2:30:00 PM'', ''123'', ''ada lovelace'', ''1 Main St'', ''1:02:03.500'', ''0:00:01'', ''x'', ''caf'']]"
     and db = "tzdb_2024" and tbl = id and fi = 4 and bi = 5 and ti = 6]
  note h = missing_column_is_fatal
    [where header = "[''Timestamp'', ''ZIP'', ''FullName'', ''Address'', ''FooDuration'', ''BarDuration'']"
     and rest = "[[''3/10/24 2:30:00 PM'', ''123'', ''ada lovelace'', ''1 Main St'', ''1:02:03.500'', ''0:00:01'', ''x'', ''caf'']]"
     and db = "tzdb_2024" and tbl = id and fi = 4 and bi = 5 and ti = 6]
  note i = missing_column_is_fatal
    [where header = "[''Timestamp'', ''ZIP'', ''FullName'', ''Address'', ''FooDuration'', ''BarDuration'', ''TotalDuration'']"
     and rest = "[[''3/10/24 2:30:00 PM'', ''123'', ''ada lovelace'', ''1 Main St'', ''1:02:03.500'', ''0:00:01'', ''x'']]"
     and db = "tzdb_2024" and tbl = id and fi = 4 and bi = 5 and ti = 6]
  note j = missing_column_is_fatal
    [where header = "[''Timestamp'', ''ZIP'', ''FullName'', ''Address'', ''FooDuration'', ''BarDuration'', ''TotalDuration'', ''Notes'']"
     and rest = "[[''3/10/24 2:30:00 PM'', ''123'', ''ada lovelace'', ''1 Main St'', ''1:02:03.500'', ''0:00:01'', ''x'', ''caf''], [''3/10/24 2:30:00 PM'', ''123'']]"
     and db = "tzdb_2024" and tbl = id and fi = 4 and bi = 5 and ti = 6]
  note k = missing_column_is_fatal
    [where header = "[''Timestamp'', ''ZIP'', ''FullName'', ''Address'', ''FooDuration'', ''BarDuration'', ''TotalDuration'', ''Notes'']"
     and rest = "[[''3/10/24 2:30:00 PM'', ''123'', ''ada lovelace'', ''1 Main St'', ''1:02:03.500'', ''0:00:01'', ''x'', ''caf'']]"
     and db = "tzdb_2024" and tbl = id and fi = 4 and bi = 5 and ti = 6]
  show ?thesis
    apply (intro conjI)
    subgoal using a by (simp add: ev)
    subgoal using b by (simp add: ev)
    subgoal using c by (simp add: ev)
    subgoal using d by (simp add: ev)
    subgoal using e by (simp add: ev)
    subgoal using f by (simp add: ev)
    subgoal using g by (simp add: ev)
    subgoal using h by (simp add: ev)
    subgoal using i by (simp add: ev)
    subgoal using j by (simp add: ev)
    subgoal using k by (simp add: ev)
    done
qed

text \<open>
  The claim as it is written fails where the header has every column and the time zone
  database is missing: the Timestamp stage returns an error.
\<close>

theorem all_columns_present_but_no_time_zones:
  "ProcessTimestamp (\<lambda>name. None)
     [[''Timestamp'', ''ZIP'', ''FullName'', ''Address'', ''FooDuration'', ''BarDuration'',
       ''TotalDuration'', ''Notes'']]
     = Err (TzLoadFailed ''failed to load Pacific timezone'')"
  by (simp add: ProcessTimestamp_def)

section \<open>The ZIP stage\<close>

lemma rows_loop_map_on:
  "(\<And>r. r \<in> set rest \<Longrightarrow> body r = Some (f r, w r))
     \<Longrightarrow> rows_loop body rest = Some (map f rest, concat (map w rest))"
  by (induction rest) simp_all

lemma rows_loop_map:
  assumes "\<And>r. body r = Some (f r, w r)"
  shows "rows_loop body rest = Some (map f rest, concat (map w rest))"
  by (rule rows_loop_map_on) (rule assms)

lemma runes_ascii:
  "is_ascii s \<Longrightarrow> runes s = map (\<lambda>c. (of_char c, [c])) s"
proof (induction s)
  case Nil
  show ?case by (simp add: runes.simps)
next
  case (Cons c s)
  then show ?case
    by (subst runes.simps) (simp add: is_ascii_def DecodeRune.simps)
qed

lemma digit_ascii: "is_digit c \<Longrightarrow> (of_char c :: nat) < 0x80"
  by (simp add: is_digit_def)

lemma digits_ascii: "list_all is_digit ds \<Longrightarrow> is_ascii ds"
  by (induction ds) (simp_all add: is_ascii_def digit_ascii)

lemma Atoi_ascii:
  assumes "Atoi z = Some n"
  shows "is_ascii z"
proof (cases z)
  case Nil
  then show ?thesis by (simp add: is_ascii_def)
next
  case (Cons c cs)
  show ?thesis
  proof (cases "c = CHR ''+'' \<or> c = CHR ''-''")
    case True
    with assms Cons have "list_all is_digit cs"
      by (auto simp add: Atoi_def Let_def split: if_splits)
    then have "is_ascii cs" by (rule digits_ascii)
    with True Cons show ?thesis by (auto simp add: is_ascii_def)
  next
    case False
    with assms Cons have "list_all is_digit z"
      by (auto simp add: Atoi_def Let_def split: if_splits)
    then show ?thesis by (rule digits_ascii)
  qed
qed

lemma Sprintf_05s_integer:
  "Atoi z = Some n \<Longrightarrow> Sprintf_05s z = replicate (5 - length z) CHR ''0'' @ z"
  by (simp add: Sprintf_05s_def runes_ascii Atoi_ascii)

text \<open>
  Claim C3. In a table whose header has a ZIP column (found without regard to case, at
  index \<open>i\<close>), the stage does the following to every data row that has a cell at \<open>i\<close>; the
  other rows and all other cells stay as they are. The cell is trimmed. When the trimmed
  value is not empty and is an integer for \<^verbatim>\<open>strconv.Atoi\<close>, the cell becomes the
  trimmed value with as many zeros in front as it lacks to five characters: none when it
  has five or more, so nothing is ever cut off. When the trimmed value is not empty and is
  not such an integer, the row is unchanged and a warning with the trimmed value is
  printed. When it is empty, the row is unchanged and nothing is printed.
\<close>

theorem zip_stage_pads_integers:
  assumes "find_first (\<lambda>h. EqualFold h ''ZIP'') header = Some i"
  shows "ProcessZIPs (header # rest) =
    Ok (header #
        map (\<lambda>r. if i < length r \<and> TrimSpace (r ! i) \<noteq> [] \<and> Atoi (TrimSpace (r ! i)) \<noteq> None
                  then r[i := replicate (5 - length (TrimSpace (r ! i))) CHR ''0''
                                @ TrimSpace (r ! i)]
                  else r) rest)
       (concat (map (\<lambda>r. if i < length r \<and> TrimSpace (r ! i) \<noteq> []
                               \<and> Atoi (TrimSpace (r ! i)) = None
                           then [InvalidZIP (TrimSpace (r ! i))] else []) rest))"
proof -
  have "rows_loop (zip_body i) rest =
    Some (map (\<lambda>r. if i < length r \<and> TrimSpace (r ! i) \<noteq> [] \<and> Atoi (TrimSpace (r ! i)) \<noteq> None
                  then r[i := replicate (5 - length (TrimSpace (r ! i))) CHR ''0''
                                @ TrimSpace (r ! i)]
                  else r) rest,
          concat (map (\<lambda>r. if i < length r \<and> TrimSpace (r ! i) \<noteq> []
                               \<and> Atoi (TrimSpace (r ! i)) = None
                           then [InvalidZIP (TrimSpace (r ! i))] else []) rest))"
    by (rule rows_loop_map)
      (auto simp add: zip_body_def Let_def Sprintf_05s_integer split: option.splits)
  with assms show ?thesis
    by (simp add: ProcessZIPs_def run_stage_def)
qed

lemmas atoi_eval = Atoi_def is_digit_def digits_val_def digit_val_def

theorem zip_stage_pads_integers_witness:
  "ProcessZIPs [[''Zip''], [''123''], [''12345''], ['' 123456 ''], [''12a''], [''  ''], []]
     = Ok [[''Zip''], [''00123''], [''12345''], [''123456''], [''12a''], [''  ''], []]
          [InvalidZIP ''12a'']"
proof -
  have h: "find_first (\<lambda>h. EqualFold h ''ZIP'') [''Zip''] = Some 0"
    by (simp add: fold_eval utf8_eval)
  have trim:
    "TrimSpace ''123'' = ''123''" "TrimSpace ''12345'' = ''12345''"
    "TrimSpace '' 123456 '' = ''123456''" "TrimSpace ''12a'' = ''12a''" "TrimSpace ''  '' = []"
    by (simp_all add: trim_eval utf8_eval)
  have atoi:
    "Atoi ''123'' = Some 123" "Atoi ''12345'' = Some 12345" "Atoi ''123456'' = Some 123456"
    "Atoi ''12a'' = None"
    by (simp_all add: atoi_eval)
  show ?thesis
    using zip_stage_pads_integers
      [OF h, of "[[''123''], [''12345''], ['' 123456 ''], [''12a''], [''  ''], []]"]
    by (simp add: trim atoi eval_nat_numeral)
qed

section \<open>What \<^verbatim>\<open>%.3f\<close> writes\<close>


lemma half_sum: "2 * p \<le> (d :: int) \<Longrightarrow> x \<le> p + q \<Longrightarrow> 2 * q \<le> d \<Longrightarrow> x \<le> d"
  by linarith

lemma tie_both:
  "2 * \<bar>a\<bar> \<le> d \<Longrightarrow> 2 * \<bar>a + d\<bar> \<le> d \<Longrightarrow> 2 * \<bar>a\<bar> = d \<and> 2 * \<bar>a + d\<bar> = (d :: int)"
  by (simp add: abs_if split: if_splits)

lemma nearest_even_unique:
  assumes "0 < d" "nearest_even n d q" "nearest_even n d q'"
  shows "q = q'"
proof -
  define a where "a = int q * int d - int n"
  define t where "t = int q' - int q"
  have a': "int q' * int d - int n = a + t * int d"
    unfolding a_def t_def by (simp add: algebra_simps)
  have d: "0 < int d"
    using assms(1) by simp
  have b1: "2 * \<bar>a\<bar> \<le> int d" and e1: "2 * \<bar>a\<bar> = int d \<Longrightarrow> even q"
    using assms(2) by (auto simp add: nearest_even_def a_def)
  have b2: "2 * \<bar>a + t * int d\<bar> \<le> int d" and e2: "2 * \<bar>a + t * int d\<bar> = int d \<Longrightarrow> even q'"
    using assms(3) by (auto simp add: nearest_even_def a')
  define x where "x = t * int d"
  have "2 * \<bar>a + x\<bar> \<le> int d"
    using b2 by (simp add: x_def)
  moreover have "\<bar>x\<bar> \<le> \<bar>a + x\<bar> + \<bar>a\<bar>"
    using abs_triangle_ineq4 [of "a + x" a] by simp
  ultimately have "\<bar>x\<bar> \<le> int d"
    using b1 by (rule half_sum)
  then have "\<bar>t * int d\<bar> \<le> int d"
    by (simp add: x_def)
  then have "\<bar>t\<bar> * int d \<le> 1 * int d"
    by (simp add: abs_mult)
  then have "\<bar>t\<bar> \<le> 1"
    using d by (simp only: mult_le_cancel_right)
  then consider "t = 0" | "t = 1" | "t = - 1" by linarith
  then show ?thesis
  proof cases
    case 1
    then show ?thesis by (simp add: t_def)
  next
    case 2
    then have "2 * \<bar>a\<bar> = int d" "2 * \<bar>a + t * int d\<bar> = int d"
      using tie_both [of a "int d"] b1 b2 by simp_all
    then have "even q" "even q'" using e1 e2 by simp_all
    moreover have "q' = q + 1" using 2 by (simp add: t_def)
    ultimately show ?thesis by simp
  next
    case 3
    then have "2 * \<bar>a\<bar> = int d" "2 * \<bar>a + t * int d\<bar> = int d"
      using tie_both [of "a - int d" "int d"] b1 b2 by simp_all
    then have "even q" "even q'" using e1 e2 by simp_all
    moreover have "q = q' + 1" using 3 by (simp add: t_def)
    ultimately show ?thesis by simp
  qed
qed



section \<open>The TotalDuration stage\<close>







section \<open>The Durations stage\<close>












section \<open>The Timestamp stage on 10 March 2024\<close>

lemmas time_eval =
  parse_date_def parse_clock_def getnum_def skip_char_def skip_space_def year2_def
  skip_fraction_def ampm_def is_digit_def digit_val_def daysIn_def isLeap_def
  days_from_civil_def civil_from_days_def appendInt_def show_nat.simps char_of_def
  bit_Suc_0_iff

lemma parse_example:
  "ParseInLocation ''3/10/24 2:30:00 PM'' loc = Some (Date 2024 3 10 14 30 0 loc)"
  by (simp add: ParseInLocation_def time_eval Let_def cong: let_weak_cong)

lemma date_example:
  assumes "\<forall>t. 1710064800 \<le> t \<and> t < 1730624400 \<longrightarrow> lp t = (- 25200, 1710064800, 1730624400)"
  shows "Date 2024 3 10 14 30 0 lp = 1710106200"
proof -
  have "lp 1710081000 = (- 25200, 1710064800, 1730624400)"
    using assms by simp
  then show ?thesis
    by (simp add: Date_def days_from_civil_def Let_def cong: let_weak_cong)
qed

lemma format_example:
  assumes "fst (le 1710106200) = - 14400"
  shows "Format_RFC3339 1710106200 le = ''2024-03-10T17:30:00-04:00''"
  using assms
  by (simp add: Format_RFC3339_def time_eval Let_def cong: let_weak_cong)

text \<open>
  Claim C6, amended. The time zone database has, for the Pacific zone, the period of
  daylight time of 2024 (seven hours behind UTC from 2024-03-10 10:00 UTC to 2024-11-03
  09:00 UTC) and, for the Eastern zone, its period of daylight time (four hours behind UTC
  from 2024-03-10 07:00 UTC to 2024-11-03 06:00 UTC). Then the stage rewrites the cell
  \<^verbatim>\<open>3/10/24 2:30:00 PM\<close> as \<^verbatim>\<open>2024-03-10T17:30:00-04:00\<close>: the instant is the one the
  cell denotes in Pacific time (21:30 UTC), and the Eastern clock reads three hours more
  than the Pacific clock at that instant.
\<close>

theorem timestamp_example_converts_to_eastern:
  assumes "db ''America/Los_Angeles'' = Some lp"
    and "db ''America/New_York'' = Some le"
    and "\<forall>t. 1710064800 \<le> t \<and> t < 1730624400 \<longrightarrow> lp t = (- 25200, 1710064800, 1730624400)"
    and "\<forall>t. 1710054000 \<le> t \<and> t < 1730613600 \<longrightarrow> fst (le t) = - 14400"
  shows "ProcessTimestamp db [[''Timestamp''], [''3/10/24 2:30:00 PM'']]
           = Ok [[''Timestamp''], [''2024-03-10T17:30:00-04:00'']] []
    \<and> ParseInLocation ''3/10/24 2:30:00 PM'' lp = Some 1710106200
    \<and> wall_clock lp 1710106200 = days_from_civil 2024 3 10 * 86400 + 14 * 3600 + 30 * 60
    \<and> wall_clock le 1710106200 = wall_clock lp 1710106200 + 3 * 3600"
proof -
  have parse: "ParseInLocation ''3/10/24 2:30:00 PM'' lp = Some 1710106200"
    by (simp add: parse_example date_example [OF assms(3)])
  have east: "fst (le 1710106200) = - 14400"
    using assms(4) by simp
  have west: "lp 1710106200 = (- 25200, 1710064800, 1730624400)"
    using assms(3) by simp
  have stage: "ProcessTimestamp db [[''Timestamp''], [''3/10/24 2:30:00 PM'']]
           = Ok [[''Timestamp''], [''2024-03-10T17:30:00-04:00'']] []"
    by (simp add: ProcessTimestamp_def assms(1,2) run_stage_def timestamp_body_def parse
        format_example [of le, OF east])
  have clock: "wall_clock lp 1710106200
      = days_from_civil 2024 3 10 * 86400 + 14 * 3600 + 30 * 60"
    by (simp add: wall_clock_def west days_from_civil_def Let_def cong: let_weak_cong)
  have ahead: "wall_clock le 1710106200 = wall_clock lp 1710106200 + 3 * 3600"
    by (simp add: wall_clock_def west east)
  from stage parse clock ahead show ?thesis
    by (intro conjI)
qed

theorem timestamp_example_converts_to_eastern_witness:
  "ProcessTimestamp tzdb_2024 [[''Timestamp''], [''3/10/24 2:30:00 PM'']]
     = Ok [[''Timestamp''], [''2024-03-10T17:30:00-04:00'']] []
   \<and> wall_clock New_York_2024 1710106200 = wall_clock Los_Angeles_2024 1710106200 + 3 * 3600"
proof -
  have db: "tzdb_2024 ''America/Los_Angeles'' = Some Los_Angeles_2024"
    "tzdb_2024 ''America/New_York'' = Some New_York_2024"
    by (simp_all add: tzdb_2024_def)
  have west: "\<forall>t. 1710064800 \<le> t \<and> t < 1730624400 \<longrightarrow>
      Los_Angeles_2024 t = (- 25200, 1710064800, 1730624400)"
    by (simp add: Los_Angeles_2024_def)
  have east: "\<forall>t. 1710054000 \<le> t \<and> t < 1730613600 \<longrightarrow> fst (New_York_2024 t) = - 14400"
    by (simp add: New_York_2024_def)
  show ?thesis
    using timestamp_example_converts_to_eastern [OF db west east] by simp
qed

text \<open>
  The claim as it is written has the Eastern timestamp five hours ahead. With the zone
  periods of 2024 the stage writes 17:30 at four hours behind UTC, not 19:30: the Eastern
  clock is three hours ahead of the Pacific clock, the instant is the same, and the offset
  from UTC is four hours, not five.
\<close>

theorem timestamp_example_not_five_hours_ahead:
  "ProcessTimestamp tzdb_2024 [[''Timestamp''], [''3/10/24 2:30:00 PM'']]
     \<noteq> Ok [[''Timestamp''], [''2024-03-10T19:30:00-04:00'']] []
   \<and> wall_clock New_York_2024 1710106200 \<noteq> wall_clock Los_Angeles_2024 1710106200 + 5 * 3600
   \<and> fst (New_York_2024 1710106200) \<noteq> - (5 * 3600)
   \<and> ParseInLocation ''3/10/24 2:30:00 PM'' Los_Angeles_2024 = Some 1710106200
   \<and> Format_RFC3339 1710106200 New_York_2024 = ''2024-03-10T17:30:00-04:00''"
proof -
  have parse: "ParseInLocation ''3/10/24 2:30:00 PM'' Los_Angeles_2024 = Some 1710106200"
    by (simp add: parse_example date_example Los_Angeles_2024_def)
  have fmt: "Format_RFC3339 1710106200 New_York_2024 = ''2024-03-10T17:30:00-04:00''"
    by (rule format_example [of New_York_2024]) (simp add: New_York_2024_def)
  have stage: "ProcessTimestamp tzdb_2024 [[''Timestamp''], [''3/10/24 2:30:00 PM'']]
     = Ok [[''Timestamp''], [''2024-03-10T17:30:00-04:00'']] []"
    by (simp add: ProcessTimestamp_def tzdb_2024_def run_stage_def timestamp_body_def parse fmt)
  have clock: "wall_clock New_York_2024 1710106200
      \<noteq> wall_clock Los_Angeles_2024 1710106200 + 5 * 3600"
    by (simp add: wall_clock_def New_York_2024_def Los_Angeles_2024_def)
  have offset: "fst (New_York_2024 1710106200) \<noteq> - (5 * 3600)"
    by (simp add: New_York_2024_def)
  from stage parse fmt clock offset show ?thesis
    by simp
qed

section \<open>The Notes stage\<close>



lemma lead_size_4: "lead_size b = 4 \<longleftrightarrow> 0xF0 \<le> b \<and> b \<le> 0xF4"
  by (simp add: lead_size_def)

lemma lead_size_0: "lead_size b = 0 \<longleftrightarrow> b < 0xC2 \<or> 0xF4 < b"
  by (auto simp add: lead_size_def)

lemma second_ok_cont: "second_ok b c \<Longrightarrow> is_cont c"
  by (auto simp add: second_ok_def second_range_def is_cont_def split: if_splits)

lemma DecodeRune_ascii: "(of_char c :: nat) < 0x80 \<Longrightarrow> DecodeRune (c # cs) = (of_char c, 1)"
  by (simp add: Let_def)

lemma DecodeRune_bad_lead:
  "0x80 \<le> (of_char c :: nat) \<Longrightarrow> lead_size (of_char c) = 0 \<Longrightarrow> DecodeRune (c # cs) = (RuneError, 1)"
  by (auto simp add: Let_def lead_size_0)

lemma DecodeRune_cont: "is_cont c \<Longrightarrow> DecodeRune (c # cs) = (RuneError, 1)"
  by (simp add: Let_def is_cont_def)

lemma DecodeRune_bad_second:
  "0x80 \<le> (of_char c :: nat) \<Longrightarrow> \<not> second_ok (of_char c) c1 \<Longrightarrow> DecodeRune (c # c1 # cs) = (RuneError, 1)"
  by (simp add: Let_def split: list.splits)







lemma DecodeRune_bad_third:
  "3 \<le> lead_size (of_char c) \<Longrightarrow> \<not> is_cont c2 \<Longrightarrow> DecodeRune (c # c1 # c2 # cs) = (RuneError, 1)"
  by (simp add: Let_def lead_size_def split: if_splits list.splits)

lemma DecodeRune_bad_fourth:
  "lead_size (of_char c) = 4 \<Longrightarrow> \<not> is_cont c3 \<Longrightarrow> DecodeRune (c # c1 # c2 # c3 # cs) = (RuneError, 1)"
  by (simp add: Let_def lead_size_4)


declare DecodeRune.simps [simp del]




lemma runes_Nil: "runes [] = []"
  by (simp add: runes.simps)














lemma lead_size_ascii: "b < 0x80 \<Longrightarrow> lead_size b = 0"
  by (simp add: lead_size_def)


























section \<open>The FirstName stage is idempotent\<close>

lemma not_cont_second: "\<not> is_cont c \<Longrightarrow> \<not> second_ok b c"
  using second_ok_cont by blast

lemma DecodeRune_append1:
  assumes "fresh s"
  shows "DecodeRune ([c0] @ s) = DecodeRune [c0]"
proof (cases s)
  case Nil
  then show ?thesis by simp
next
  case (Cons x xs)
  with assms have "\<not> is_cont x" by (simp add: fresh_def)
  then have "\<not> second_ok (of_char c0) x" by (rule not_cont_second)
  then show ?thesis unfolding Cons
    by (simp add: DecodeRune.simps Let_def split: list.splits)
qed

lemma DecodeRune_append2:
  assumes "fresh s"
  shows "DecodeRune ([c0, c1] @ s) = DecodeRune [c0, c1]"
proof (cases s)
  case Nil
  then show ?thesis by simp
next
  case (Cons x xs)
  with assms have "\<not> is_cont x" by (simp add: fresh_def)
  then show ?thesis unfolding Cons
    by (simp add: DecodeRune.simps Let_def split: list.splits)
qed

lemma DecodeRune_append3:
  assumes "fresh s"
  shows "DecodeRune ([c0, c1, c2] @ s) = DecodeRune [c0, c1, c2]"
proof (cases s)
  case Nil
  then show ?thesis by simp
next
  case (Cons x xs)
  with assms have "\<not> is_cont x" by (simp add: fresh_def)
  then show ?thesis unfolding Cons
    by (simp add: DecodeRune.simps Let_def split: list.splits)
qed

lemma DecodeRune_append4:
  "DecodeRune ((c0 # c1 # c2 # c3 # u) @ s) = DecodeRune (c0 # c1 # c2 # c3 # u)"
  by (simp add: DecodeRune.simps Let_def)

lemma DecodeRune_append:
  assumes "u \<noteq> []" "fresh s"
  shows "DecodeRune (u @ s) = DecodeRune u"
proof -
  consider c0 where "u = [c0]" | c0 c1 where "u = [c0, c1]" | c0 c1 c2 where "u = [c0, c1, c2]"
    | c0 c1 c2 c3 r where "u = c0 # c1 # c2 # c3 # r"
    using assms(1) by (cases u; cases "tl u"; cases "tl (tl u)"; cases "tl (tl (tl u))") auto
  then show ?thesis
  proof cases
    case 1
    then show ?thesis using DecodeRune_append1 [OF assms(2)] by simp
  next
    case 2
    then show ?thesis using DecodeRune_append2 [OF assms(2)] by simp
  next
    case 3
    then show ?thesis using DecodeRune_append3 [OF assms(2)] by simp
  next
    case 4
    then show ?thesis using DecodeRune_append4 by simp
  qed
qed

lemma runes_append:
  "fresh b \<Longrightarrow> runes (a @ b) = runes a @ runes b"
proof (induction a rule: runes.induct)
  case (1 a)
  show ?case
  proof (cases "a = []")
    case True
    then show ?thesis by (simp add: runes_Nil)
  next
    case False
    let ?w = "snd (DecodeRune a)"
    have d: "DecodeRune (a @ b) = DecodeRune a"
      using False "1.prems" by (rule DecodeRune_append)
    have w: "0 < ?w" "?w \<le> length a"
      using False by (simp_all add: DecodeRune_width_pos DecodeRune_width_le)
    have "runes (a @ b) = (fst (DecodeRune a), take ?w a) # runes (drop ?w a @ b)"
      using False w by (subst runes.simps) (simp add: d)
    also have "runes (drop ?w a @ b) = runes (drop ?w a) @ runes b"
      using "1.IH" [OF False "1.prems"] .
    also have "(fst (DecodeRune a), take ?w a) # runes (drop ?w a) @ runes b = runes a @ runes b"
      using False by (subst (2) runes.simps) simp
    finally show ?thesis .
  qed
qed

lemma concat_runes: "concat (map snd (runes s)) = s"
proof (induction s rule: runes.induct)
  case (1 s)
  show ?case
  proof (cases "s = []")
    case True
    then show ?thesis by (simp add: runes_Nil)
  next
    case False
    then show ?thesis
      using "1.IH" by (subst runes.simps) simp
  qed
qed

lemma runes_chunks_nonempty: "rb \<in> set (runes s) \<Longrightarrow> snd rb \<noteq> []"
proof (induction s rule: runes.induct)
  case (1 s)
  show ?case
  proof (cases "s = []")
    case True
    with "1.prems" show ?thesis by (simp add: runes_Nil)
  next
    case False
    from "1.prems" have "rb = (fst (DecodeRune s), take (snd (DecodeRune s)) s)
        \<or> rb \<in> set (runes (drop (snd (DecodeRune s)) s))"
      using False by (subst (asm) runes.simps) simp
    then show ?thesis
      using "1.IH" [OF False] False DecodeRune_width_pos [OF False] by auto
  qed
qed


lemma runes_Cons_iff:
  "runes s = x # xs \<longleftrightarrow>
     s \<noteq> [] \<and> x = (fst (DecodeRune s), take (snd (DecodeRune s)) s)
     \<and> xs = runes (drop (snd (DecodeRune s)) s)"
  by (subst runes.simps) auto

lemma runes_suffix:
  "runes s = X @ Y \<Longrightarrow> Y = runes (drop (length (concat (map snd X))) s)"
proof (induction X arbitrary: s)
  case Nil
  then show ?case by simp
next
  case (Cons x X)
  from Cons.prems have s: "s \<noteq> []"
    and x: "x = (fst (DecodeRune s), take (snd (DecodeRune s)) s)"
    and rest: "runes (drop (snd (DecodeRune s)) s) = X @ Y"
    by (simp_all add: runes_Cons_iff)
  have "length (snd x) = snd (DecodeRune s)"
    using x DecodeRune_width_le [of s] by simp
  with Cons.IH [OF rest] show ?case by (simp add: add.commute)
qed

lemma prefix_unique:
  "X @ Y = X' @ Y' \<Longrightarrow> concat (map snd X) = concat (map snd X')
     \<Longrightarrow> \<forall>rb\<in>set (X @ Y). snd rb \<noteq> [] \<Longrightarrow> X = X'"
proof (induction X arbitrary: X')
  case Nil
  show ?case
  proof (cases X')
    case Nil
    then show ?thesis by simp
  next
    case (Cons x' xs')
    with Nil.prems(1,3) have "snd x' \<noteq> []" by auto
    with Nil.prems Cons show ?thesis by simp
  qed
next
  case (Cons x xs)
  show ?case
  proof (cases X')
    case Nil
    with Cons.prems show ?thesis by auto
  next
    case c: (Cons x' xs')
    with Cons.prems have "x = x'" "xs @ Y = xs' @ Y'" by simp_all
    moreover from Cons.prems c \<open>x = x'\<close> have "concat (map snd xs) = concat (map snd xs')"
      by simp
    moreover from Cons.prems(3) have "\<forall>rb\<in>set (xs @ Y). snd rb \<noteq> []" by simp
    ultimately show ?thesis using Cons.IH c by simp
  qed
qed

lemma runes_run:
  assumes "runes s = A @ B @ C" "fresh (concat (map snd C))"
  shows "runes (concat (map snd B)) = B"
proof -
  let ?b = "concat (map snd B)" and ?c = "concat (map snd C)"
  let ?s' = "drop (length (concat (map snd A))) s"
  have bc: "B @ C = runes ?s'"
    using runes_suffix [OF assms(1)] .
  then have "?s' = ?b @ ?c"
    using concat_runes [of ?s'] by (metis concat_append map_append)
  with bc have "B @ C = runes (?b @ ?c)" by simp
  also have "\<dots> = runes ?b @ runes ?c"
    using assms(2) by (rule runes_append)
  finally have eq: "runes ?b @ runes ?c = B @ C" by simp
  have "\<forall>rb\<in>set (runes ?b @ runes ?c). snd rb \<noteq> []"
    using runes_chunks_nonempty by auto
  from prefix_unique [OF eq _ this] show ?thesis
    by (simp add: concat_runes)
qed

lemma space_fresh:
  assumes "runes c = rb # C" "space_rune rb"
  shows "fresh c"
proof -
  from assms(1) have c: "c \<noteq> []" and rb: "fst rb = fst (DecodeRune c)"
    by (simp_all add: runes_Cons_iff)
  then obtain x xs where x: "c = x # xs" by (cases c) auto
  have "\<not> is_cont x"
  proof
    assume "is_cont x"
    then have "DecodeRune c = (RuneError, 1)" unfolding x by (rule DecodeRune_cont)
    with rb assms(2) show False by (simp add: space_rune_def IsSpace_def RuneError_def)
  qed
  then show ?thesis by (simp add: x fresh_def)
qed

lemma run_token:
  assumes "runes s = A @ B @ C" "C = [] \<or> space_rune (hd C)"
    and "list_all (\<lambda>rb. \<not> space_rune rb) B" "concat (map snd B) \<noteq> []"
  shows "token (concat (map snd B))"
proof -
  have "fresh (concat (map snd C))"
  proof (cases C)
    case Nil
    then show ?thesis by (simp add: fresh_def)
  next
    case (Cons rb C')
    with assms(2) have sp: "space_rune rb" by simp
    have "C = runes (drop (length (concat (map snd (A @ B)))) s)"
      using runes_suffix [of s "A @ B" C] assms(1) by simp
    then have "runes (concat (map snd C)) = rb # C'"
      using Cons concat_runes by metis
    from space_fresh [OF this sp] show ?thesis .
  qed
  from runes_run [OF assms(1) this] assms(3,4) show ?thesis
    by (simp add: token_def)
qed

lemma fields_loop_tokens:
  "runes s = A @ B @ R \<Longrightarrow> cur = concat (map snd B)
     \<Longrightarrow> list_all (\<lambda>rb. \<not> space_rune rb) B \<Longrightarrow> list_all token (fields_loop cur R)"
proof (induction R arbitrary: A B cur)
  case Nil
  then show ?case
    using run_token [of s A B "[]"] by simp
next
  case (Cons rb R)
  show ?case
  proof (cases "space_rune rb")
    case True
    have rest: "list_all token (fields_loop [] R)"
      using Cons.IH [of "A @ B @ [rb]" "[]" "[]"] Cons.prems(1) by simp
    have "cur \<noteq> [] \<Longrightarrow> token cur"
      using run_token [of s A B "rb # R"] Cons.prems True by simp
    with rest True show ?thesis by simp
  next
    case False
    have "list_all token (fields_loop (cur @ snd rb) R)"
      using Cons.IH [of A "B @ [rb]" "cur @ snd rb"] Cons.prems False by simp
    with False show ?thesis by simp
  qed
qed

lemma Fields_tokens: "list_all token (Fields s)"
  unfolding Fields_def using fields_loop_tokens [of s "[]" "[]" "runes s" "[]"] by simp


lemma runes_eq_Nil: "runes s = [] \<longleftrightarrow> s = []"
  by (subst runes.simps) simp

lemma runes_space: "runes (CHR '' '' # s) = (0x20, '' '') # runes s"
  by (simp add: runes_Cons_iff DecodeRune_ascii)

lemma fresh_space: "fresh (CHR '' '' # s)"
  by (simp add: fresh_def is_cont_def)

lemma space_rune_space: "space_rune (0x20, '' '')"
  by (simp add: space_rune_def IsSpace_def)

lemma runes_token_space:
  "runes (t @ CHR '' '' # s) = runes t @ (0x20, '' '') # runes s"
  using runes_append [of "CHR '' '' # s" t] by (simp add: fresh_space runes_space)

lemma fields_loop_nonspace:
  "list_all (\<lambda>rb. \<not> space_rune rb) X
     \<Longrightarrow> fields_loop cur (X @ Y) = fields_loop (cur @ concat (map snd X)) Y"
  by (induction X arbitrary: cur) simp_all

lemma fields_loop_Join:
  "list_all token (t # ts) \<Longrightarrow> fields_loop [] (runes (Join (t # ts) '' '')) = t # ts"
proof (induction ts arbitrary: t)
  case Nil
  then have t: "t \<noteq> []" "list_all (\<lambda>rb. \<not> space_rune rb) (runes t)"
    by (simp_all add: token_def)
  from fields_loop_nonspace [OF t(2), of "[]" "[]"] t(1) show ?case
    by (simp add: concat_runes)
next
  case (Cons q ps)
  then have t: "t \<noteq> []" "list_all (\<lambda>rb. \<not> space_rune rb) (runes t)"
    by (simp_all add: token_def)
  have "fields_loop [] (runes (Join (t # q # ps) '' ''))
      = fields_loop [] (runes t @ (0x20, '' '') # runes (Join (q # ps) '' ''))"
    by (simp add: runes_token_space)
  also have "\<dots> = fields_loop t ((0x20, '' '') # runes (Join (q # ps) '' ''))"
    using fields_loop_nonspace [OF t(2), of "[]"] by (simp add: concat_runes)
  also have "\<dots> = t # fields_loop [] (runes (Join (q # ps) '' ''))"
    using t(1) by (simp add: space_rune_space)
  also have "fields_loop [] (runes (Join (q # ps) '' '')) = q # ps"
    using Cons.IH [of q] Cons.prems by simp
  finally show ?case .
qed

lemma Fields_Join: "list_all token (t # ts) \<Longrightarrow> Fields (Join (t # ts) '' '') = t # ts"
  by (simp add: Fields_def fields_loop_Join)

lemma runes_Join_ends:
  "list_all token (t # ts) \<Longrightarrow>
     runes (Join (t # ts) '' '') \<noteq> []
     \<and> \<not> space_rune (hd (runes (Join (t # ts) '' '')))
     \<and> \<not> space_rune (last (runes (Join (t # ts) '' '')))"
proof (induction ts arbitrary: t)
  case Nil
  then have t: "runes t \<noteq> []" "list_all (\<lambda>rb. \<not> space_rune rb) (runes t)"
    by (simp_all add: token_def runes_eq_Nil)
  then have "\<not> space_rune (hd (runes t))" "\<not> space_rune (last (runes t))"
    by (simp_all add: list_all_iff)
  with t show ?case by simp
next
  case (Cons q ps)
  then have t: "runes t \<noteq> []" "list_all (\<lambda>rb. \<not> space_rune rb) (runes t)"
    by (simp_all add: token_def runes_eq_Nil)
  then have "\<not> space_rune (hd (runes t))"
    by (simp add: list_all_iff)
  moreover from Cons.IH [of q] Cons.prems have
    "runes (Join (q # ps) '' '') \<noteq> []" "\<not> space_rune (last (runes (Join (q # ps) '' '')))"
    by simp_all
  ultimately show ?case using t(1)
    by (simp add: runes_token_space)
qed

lemma dropWhile_hd: "xs \<noteq> [] \<Longrightarrow> \<not> P (hd xs) \<Longrightarrow> dropWhile P xs = xs"
  by (cases xs) simp_all

lemma TrimSpace_Join:
  assumes "list_all token (t # ts)"
  shows "TrimSpace (Join (t # ts) '' '') = Join (t # ts) '' ''"
proof -
  let ?R = "runes (Join (t # ts) '' '')"
  from runes_Join_ends [OF assms] have ne: "?R \<noteq> []"
    and h: "\<not> space_rune (hd ?R)" and l: "\<not> space_rune (last ?R)"
    by simp_all
  have "dropWhile space_rune ?R = ?R"
    using ne h by (rule dropWhile_hd)
  moreover have "dropWhile space_rune (rev ?R) = rev ?R"
    using ne l by (intro dropWhile_hd) (simp_all add: hd_rev)
  ultimately show ?thesis
    by (simp add: TrimSpace_def concat_runes)
qed

lemma Join_nonempty: "list_all token (t # ts) \<Longrightarrow> Join (t # ts) '' '' \<noteq> []"
  by (cases ts) (simp_all add: token_def)

lemma decode2:
  fixes b0 b1 :: nat
  assumes "of_char c0 = b0" "of_char c1 = b1"
    and "0xC2 \<le> b0" "b0 \<le> 0xDF" "0x80 \<le> b1" "b1 \<le> 0xBF"
  shows "DecodeRune (c0 # c1 # s) = ((b0 mod 0x20) * 0x40 + b1 mod 0x40, 2)"
  using assms by (simp add: DecodeRune.simps Let_def second_ok_def second_range_def)

lemma decode3:
  fixes b0 b1 b2 :: nat
  assumes "of_char c0 = b0" "of_char c1 = b1" "of_char c2 = b2"
    and "0xE0 \<le> b0" "b0 \<le> 0xEF" "0x80 \<le> b1" "b1 \<le> 0xBF" "0x80 \<le> b2" "b2 \<le> 0xBF"
    and "b0 = 0xE0 \<Longrightarrow> 0xA0 \<le> b1" "b0 = 0xED \<Longrightarrow> b1 \<le> 0x9F"
  shows "DecodeRune (c0 # c1 # c2 # s)
    = ((b0 mod 0x10) * 0x1000 + (b1 mod 0x40) * 0x40 + b2 mod 0x40, 3)"
  using assms by (simp add: DecodeRune.simps Let_def second_ok_def second_range_def is_cont_def)

lemma decode4:
  fixes b0 b1 b2 b3 :: nat
  assumes "of_char c0 = b0" "of_char c1 = b1" "of_char c2 = b2" "of_char c3 = b3"
    and "0xF0 \<le> b0" "b0 \<le> 0xF4" "0x80 \<le> b1" "b1 \<le> 0xBF" "0x80 \<le> b2" "b2 \<le> 0xBF"
      "0x80 \<le> b3" "b3 \<le> 0xBF"
    and "b0 = 0xF0 \<Longrightarrow> 0x90 \<le> b1" "b0 = 0xF4 \<Longrightarrow> b1 \<le> 0x8F"
  shows "DecodeRune (c0 # c1 # c2 # c3 # s)
    = ((b0 mod 0x08) * 0x40000 + (b1 mod 0x40) * 0x1000 + (b2 mod 0x40) * 0x40 + b3 mod 0x40, 4)"
  using assms by (simp add: DecodeRune.simps Let_def second_ok_def second_range_def is_cont_def)

lemma enc1: "x < 0x80 \<Longrightarrow> DecodeRune (EncodeRune x @ s) = (x, 1)"
  by (simp add: EncodeRune_def DecodeRune_ascii)

lemma mod_add_mult: "r < d \<Longrightarrow> (d * k + r) mod d = (r :: nat)"
  by simp

lemma split64: "x = 64 * (x div 64) + x mod (64 :: nat)" "x mod 64 < (64 :: nat)"
  by simp_all

lemma enc2:
  assumes "0x80 \<le> x" "x < 0x800"
  shows "DecodeRune (EncodeRune x @ s) = (x, 2)"
proof -
  define q r where "q = x div 64" and "r = x mod 64"
  have x: "x = 64 * q + r" and r: "r < 64"
    unfolding q_def r_def by simp_all
  from x r assms have q: "2 \<le> q" "q < 32" by arith+
  have e: "EncodeRune x = [char_of (0xC0 + q), char_of (0x80 + r)]"
    using assms by (simp add: EncodeRune_def q_def r_def)
  have m0: "(0xC0 + q) mod 0x20 = q"
    using mod_add_mult [of q 32 6] q by simp
  have m1: "(0x80 + r) mod 0x40 = r"
    using mod_add_mult [of r 64 2] r by simp
  have "DecodeRune (char_of (0xC0 + q) # char_of (0x80 + r) # s)
      = (((0xC0 + q) mod 0x20) * 0x40 + (0x80 + r) mod 0x40, 2)"
    using q r by (intro decode2) simp_all
  then show ?thesis
    unfolding e using x by (simp add: m0 m1)
qed


lemma enc_bad:
  assumes "(0xD800 \<le> x \<and> x \<le> 0xDFFF) \<or> 0x10FFFF < x"
  shows "DecodeRune (EncodeRune x @ s) = (0xFFFD, 3)"
proof -
  have e: "EncodeRune x = [CHR 0xEF, CHR 0xBF, CHR 0xBD]"
    using assms by (auto simp add: EncodeRune_def)
  show ?thesis unfolding e
    by (simp add: DecodeRune.simps Let_def second_ok_def second_range_def is_cont_def)
qed

lemma enc3:
  assumes "0x800 \<le> x" "x < 0x10000" "\<not> (0xD800 \<le> x \<and> x \<le> 0xDFFF)"
  shows "DecodeRune (EncodeRune x @ s) = (x, 3)"
proof -
  define a b c where "a = x div 4096" and "b = (x div 64) mod 64" and "c = x mod 64"
  have "x div 64 = 64 * (x div 64 div 64) + b"
    unfolding b_def by simp
  moreover have "x div 64 div 64 = a"
    unfolding a_def by (simp add: div_mult2_eq [symmetric])
  moreover have "x = 64 * (x div 64) + c"
    unfolding c_def by simp
  ultimately have x: "x = 4096 * a + 64 * b + c" by simp
  have bc: "b < 64" "c < 64"
    unfolding b_def c_def by simp_all
  from x bc assms have a: "a < 16" "a = 0 \<Longrightarrow> 32 \<le> b" "a = 13 \<Longrightarrow> b < 32" by arith+
  have e: "EncodeRune x = [char_of (0xE0 + a), char_of (0x80 + b), char_of (0x80 + c)]"
    using assms by (auto simp add: EncodeRune_def a_def b_def c_def)
  have m0: "(0xE0 + a) mod 0x10 = a"
    using mod_add_mult [of a 16 14] a by simp
  have m1: "(0x80 + b) mod 0x40 = b"
    using mod_add_mult [of b 64 2] bc by simp
  have m2: "(0x80 + c) mod 0x40 = c"
    using mod_add_mult [of c 64 2] bc by simp
  have "DecodeRune (char_of (0xE0 + a) # char_of (0x80 + b) # char_of (0x80 + c) # s)
      = (((0xE0 + a) mod 0x10) * 0x1000 + ((0x80 + b) mod 0x40) * 0x40 + (0x80 + c) mod 0x40, 3)"
    using a bc by (intro decode3) simp_all
  then show ?thesis
    unfolding e using x by (simp add: m0 m1 m2)
qed

lemma enc4:
  assumes "0x10000 \<le> x" "x \<le> 0x10FFFF"
  shows "DecodeRune (EncodeRune x @ s) = (x, 4)"
proof -
  define a b c d where "a = x div 262144" and "b = (x div 4096) mod 64"
    and "c = (x div 64) mod 64" and "d = x mod 64"
  have "x div 4096 = 64 * (x div 4096 div 64) + b"
    unfolding b_def by simp
  moreover have "x div 4096 div 64 = a"
    unfolding a_def by (simp add: div_mult2_eq [symmetric])
  moreover have "x div 64 = 64 * (x div 64 div 64) + c"
    unfolding c_def by simp
  moreover have "x div 64 div 64 = x div 4096"
    by (simp add: div_mult2_eq [symmetric])
  moreover have "x = 64 * (x div 64) + d"
    unfolding d_def by simp
  ultimately have x: "x = 262144 * a + 4096 * b + 64 * c + d" by simp
  have bcd: "b < 64" "c < 64" "d < 64"
    unfolding b_def c_def d_def by simp_all
  from x bcd assms have a: "a \<le> 4" "a = 0 \<Longrightarrow> 16 \<le> b" "a = 4 \<Longrightarrow> b < 16" by arith+
  have e: "EncodeRune x
      = [char_of (0xF0 + a), char_of (0x80 + b), char_of (0x80 + c), char_of (0x80 + d)]"
    using assms by (auto simp add: EncodeRune_def a_def b_def c_def d_def)
  have m0: "(0xF0 + a) mod 0x08 = a"
    using mod_add_mult [of a 8 30] a by simp
  have m1: "(0x80 + b) mod 0x40 = b"
    using mod_add_mult [of b 64 2] bcd by simp
  have m2: "(0x80 + c) mod 0x40 = c"
    using mod_add_mult [of c 64 2] bcd by simp
  have m3: "(0x80 + d) mod 0x40 = d"
    using mod_add_mult [of d 64 2] bcd by simp
  have "DecodeRune (char_of (0xF0 + a) # char_of (0x80 + b) # char_of (0x80 + c)
                     # char_of (0x80 + d) # s)
      = (((0xF0 + a) mod 0x08) * 0x40000 + ((0x80 + b) mod 0x40) * 0x1000
           + ((0x80 + c) mod 0x40) * 0x40 + (0x80 + d) mod 0x40, 4)"
    using a bcd by (intro decode4) simp_all
  then show ?thesis
    unfolding e using x by (simp add: m0 m1 m2 m3)
qed

lemma EncodeRune_length:
  "length (EncodeRune x) =
     (if x < 0x80 then 1 else if x < 0x800 then 2
      else if (0xD800 \<le> x \<and> x \<le> 0xDFFF) \<or> 0x10FFFF < x then 3
      else if x < 0x10000 then 3 else 4)"
  by (simp add: EncodeRune_def)

lemma decode_encode:
  "DecodeRune (EncodeRune x @ s) = (norm_rune x, length (EncodeRune x))"
proof -
  consider "x < 0x80" | "0x80 \<le> x" "x < 0x800"
    | "(0xD800 \<le> x \<and> x \<le> 0xDFFF) \<or> 0x10FFFF < x"
    | "0x800 \<le> x" "x < 0x10000" "\<not> (0xD800 \<le> x \<and> x \<le> 0xDFFF)"
    | "0x10000 \<le> x" "x \<le> 0x10FFFF"
    by linarith
  then show ?thesis
  proof cases
    case 1
    then show ?thesis by (simp add: enc1 norm_rune_def EncodeRune_length)
  next
    case 2
    then show ?thesis by (simp add: enc2 norm_rune_def EncodeRune_length)
  next
    case 3
    then show ?thesis by (auto simp add: enc_bad norm_rune_def EncodeRune_length)
  next
    case 4
    then show ?thesis by (simp add: enc3 norm_rune_def EncodeRune_length)
  next
    case 5
    then show ?thesis by (simp add: enc4 norm_rune_def EncodeRune_length)
  qed
qed

lemma EncodeRune_nonempty: "EncodeRune x \<noteq> []"
  using EncodeRune_length [of x] by (auto split: if_splits)

lemma runes_encoded:
  "runes (concat (map EncodeRune xs)) = map (\<lambda>x. (norm_rune x, EncodeRune x)) xs"
proof (induction xs)
  case Nil
  show ?case by (simp add: runes_Nil)
next
  case (Cons x xs)
  have "runes (EncodeRune x @ concat (map EncodeRune xs))
      = (norm_rune x, EncodeRune x) # runes (concat (map EncodeRune xs))"
    by (simp add: runes_Cons_iff decode_encode EncodeRune_nonempty)
  with Cons show ?case by simp
qed

lemma ascii_encoded:
  assumes "is_ascii (EncodeRune y)"
  shows "y < 0x80"
proof (rule ccontr)
  assume "\<not> y < 0x80"
  then have len: "2 \<le> length (EncodeRune y)"
    by (simp add: EncodeRune_length)
  obtain c cs where e: "EncodeRune y = c # cs"
    using EncodeRune_nonempty [of y] by (cases "EncodeRune y") auto
  with assms have "(of_char c :: nat) < 0x80" by (simp add: is_ascii_def)
  then have "snd (DecodeRune (EncodeRune y @ [])) = 1"
    unfolding e by (simp add: DecodeRune_ascii)
  with len show False by (simp only: decode_encode) simp
qed

lemma ascii_upper_low: "b < 0x80 \<Longrightarrow> ascii_upper b < 0x80"
  unfolding ascii_upper_def by arith

lemma ascii_upper_idem: "ascii_upper (ascii_upper b) = ascii_upper b"
  unfolding ascii_upper_def by arith

lemma ascii_upper_space: "IsSpace (ascii_upper b) \<longleftrightarrow> IsSpace b"
  by (auto simp add: ascii_upper_def IsSpace_def)

lemma upper_byte_val:
  "(of_char c :: nat) < 0x80 \<Longrightarrow> (of_char (upper_byte c) :: nat) = ascii_upper (of_char c)"
  using ascii_upper_low [of "of_char c"] by (simp add: upper_byte_def)

lemma ToUpper_ascii: "is_ascii p \<Longrightarrow> ToUpper tbl p = map upper_byte p"
  by (simp add: ToUpper_def)

lemma is_ascii_upper: "is_ascii p \<Longrightarrow> is_ascii (map upper_byte p)"
  by (induction p) (simp_all add: is_ascii_def upper_byte_val ascii_upper_low)

lemma upper_byte_idem:
  "is_ascii p \<Longrightarrow> map upper_byte (map upper_byte p) = map upper_byte p"
proof (induction p)
  case Nil
  show ?case by simp
next
  case (Cons c p)
  then have c: "(of_char c :: nat) < 0x80" and p: "is_ascii p"
    by (simp_all add: is_ascii_def)
  have "upper_byte (upper_byte c) = char_of (ascii_upper (of_char (upper_byte c)))"
    by (simp only: upper_byte_def)
  also have "\<dots> = char_of (ascii_upper (ascii_upper (of_char c)))"
    by (simp only: upper_byte_val [OF c])
  also have "\<dots> = upper_byte c"
    by (simp only: ascii_upper_idem upper_byte_def)
  finally have "upper_byte (upper_byte c) = upper_byte c" .
  with Cons.IH [OF p] show ?case by simp
qed

lemma token_ascii_upper:
  assumes "is_ascii p" "token p"
  shows "token (map upper_byte p)"
proof -
  from assms have ne: "p \<noteq> []" and ns: "list_all (\<lambda>c. \<not> IsSpace (of_char c)) p"
    by (simp_all add: token_def runes_ascii list_all_iff space_rune_def)
  from assms(1) ns have "list_all (\<lambda>c. \<not> IsSpace (of_char c)) (map upper_byte p)"
    by (induction p) (simp_all add: is_ascii_def upper_byte_val ascii_upper_space)
  with ne is_ascii_upper [OF assms(1)] show ?thesis
    by (simp add: token_def runes_ascii list_all_iff space_rune_def)
qed

lemma norm_rune_space: "\<not> IsSpace y \<Longrightarrow> \<not> IsSpace (norm_rune y)"
  by (simp add: norm_rune_def IsSpace_def)

lemma ToUpper_nonascii:
  "\<not> is_ascii p \<Longrightarrow>
     ToUpper tbl p = concat (map EncodeRune (map (\<lambda>rb. unicode_ToUpper tbl (fst rb)) (runes p)))"
  by (simp add: ToUpper_def comp_def)

lemma runes_ToUpper_nonascii:
  "\<not> is_ascii p \<Longrightarrow>
     runes (ToUpper tbl p)
       = map (\<lambda>rb. (norm_rune (unicode_ToUpper tbl (fst rb)),
                     EncodeRune (unicode_ToUpper tbl (fst rb)))) (runes p)"
  using runes_encoded [of "map (\<lambda>rb. unicode_ToUpper tbl (fst rb)) (runes p)"]
  by (simp add: ToUpper_nonascii comp_def)

lemma token_ToUpper:
  assumes "case_table_ok tbl" "token p"
  shows "token (ToUpper tbl p)"
proof (cases "is_ascii p")
  case True
  with assms(2) show ?thesis by (simp add: ToUpper_ascii token_ascii_upper)
next
  case False
  from assms(2) have p: "runes p \<noteq> []" "list_all (\<lambda>rb. \<not> space_rune rb) (runes p)"
    by (simp_all add: token_def runes_eq_Nil)
  from assms(1) have sp: "\<And>r. \<not> IsSpace r \<Longrightarrow> \<not> IsSpace (unicode_ToUpper tbl r)"
    by (simp add: case_table_ok_def)
  have ns: "list_all (\<lambda>rb. \<not> space_rune rb) (runes (ToUpper tbl p))"
    using p(2) by (simp add: runes_ToUpper_nonascii [OF False] list_all_iff space_rune_def
        norm_rune_space sp)
  from p(1) have "runes (ToUpper tbl p) \<noteq> []"
    by (simp add: runes_ToUpper_nonascii [OF False])
  then have "ToUpper tbl p \<noteq> []" by (simp add: runes_eq_Nil)
  with ns show ?thesis by (simp add: token_def)
qed

lemma Encode_replacement: "EncodeRune 0xFFFD = [CHR 0xEF, CHR 0xBF, CHR 0xBD]"
  by (simp add: EncodeRune_def char_of_def bit_Suc_0_iff)

lemma Encode_upper_again:
  assumes "case_table_ok tbl" "y = unicode_ToUpper tbl r"
  shows "EncodeRune (unicode_ToUpper tbl (norm_rune y)) = EncodeRune y"
proof (cases "norm_rune y = y")
  case True
  with assms show ?thesis by (simp add: case_table_ok_def)
next
  case False
  then have bad: "(0xD800 \<le> y \<and> y \<le> 0xDFFF) \<or> 0x10FFFF < y" and n: "norm_rune y = 0xFFFD"
    by (auto simp add: norm_rune_def split: if_splits)
  from bad have "EncodeRune y = [CHR 0xEF, CHR 0xBF, CHR 0xBD]"
    by (auto simp add: EncodeRune_def)
  moreover from assms(1) have "unicode_ToUpper tbl 0xFFFD = 0xFFFD"
    by (simp add: case_table_ok_def)
  ultimately show ?thesis by (simp add: n Encode_replacement)
qed

lemma is_ascii_append: "is_ascii (a @ b) \<longleftrightarrow> is_ascii a \<and> is_ascii b"
  by (simp add: is_ascii_def)

lemma is_ascii_concat: "is_ascii (concat xs) \<longleftrightarrow> (\<forall>x\<in>set xs. is_ascii x)"
  by (induction xs) (simp_all add: is_ascii_append, simp add: is_ascii_def)

lemma upper_byte_encoded:
  assumes "case_table_ok tbl" "y = unicode_ToUpper tbl r" "is_ascii (EncodeRune y)"
  shows "map upper_byte (EncodeRune y) = EncodeRune y"
proof -
  from assms(3) have low: "y < 0x80" by (rule ascii_encoded)
  then have e: "EncodeRune y = [char_of y]" by (simp add: EncodeRune_def)
  from assms(1,2) have "unicode_ToUpper tbl y = y" by (simp add: case_table_ok_def)
  with low have "ascii_upper y = y" by (simp add: unicode_ToUpper_def)
  with low show ?thesis by (simp add: e upper_byte_def)
qed

lemma ToUpper_idem:
  assumes "case_table_ok tbl"
  shows "ToUpper tbl (ToUpper tbl p) = ToUpper tbl p"
proof (cases "is_ascii p")
  case True
  then show ?thesis
    by (simp only: ToUpper_ascii [OF True] ToUpper_ascii [OF is_ascii_upper [OF True]]
        upper_byte_idem [OF True])
next
  case False
  let ?ys = "map (\<lambda>rb. unicode_ToUpper tbl (fst rb)) (runes p)"
  have q: "ToUpper tbl p = concat (map EncodeRune ?ys)"
    using False by (rule ToUpper_nonascii)
  have ys: "\<forall>y\<in>set ?ys. \<exists>r. y = unicode_ToUpper tbl r" by auto
  show ?thesis
  proof (cases "is_ascii (ToUpper tbl p)")
    case True
    then have "\<forall>y\<in>set ?ys. is_ascii (EncodeRune y)"
      unfolding q by (simp add: is_ascii_concat)
    with ys have "\<forall>y\<in>set ?ys. map upper_byte (EncodeRune y) = EncodeRune y"
      using upper_byte_encoded [OF assms] by blast
    then have "map upper_byte (concat (map EncodeRune ?ys)) = concat (map EncodeRune ?ys)"
      by (induction ?ys) (simp_all add: map_concat comp_def cong: map_cong)
    with True show ?thesis by (simp add: ToUpper_ascii q)
  next
    case nonascii: False
    have "ToUpper tbl (ToUpper tbl p)
        = concat (map EncodeRune
            (map (\<lambda>rb. unicode_ToUpper tbl (fst rb)) (runes (ToUpper tbl p))))"
      using nonascii by (rule ToUpper_nonascii)
    also have "runes (ToUpper tbl p) = map (\<lambda>y. (norm_rune y, EncodeRune y)) ?ys"
      unfolding q by (rule runes_encoded)
    also have "concat (map EncodeRune (map (\<lambda>rb. unicode_ToUpper tbl (fst rb))
          (map (\<lambda>y. (norm_rune y, EncodeRune y)) ?ys)))
        = concat (map (\<lambda>y. EncodeRune (unicode_ToUpper tbl (norm_rune y))) ?ys)"
      by (simp add: comp_def)
    also have "\<dots> = concat (map EncodeRune ?ys)"
      using ys Encode_upper_again [OF assms]
      by (intro arg_cong [where f = concat] map_cong refl) blast
    finally show ?thesis by (simp add: q)
  qed
qed

lemma firstname_body_again:
  assumes "case_table_ok tbl" "firstname_body tbl i r = Some (r', w)"
  shows "firstname_body tbl i r' = Some (r', []) \<and> w = []"
proof (cases "i < length r \<and> TrimSpace (r ! i) \<noteq> [] \<and> Fields (TrimSpace (r ! i)) \<noteq> []")
  case False
  with assms(2) have "r' = r" "w = []"
    by (auto simp add: firstname_body_def Let_def split: list.splits if_splits)
  with assms(2) show ?thesis by simp
next
  case True
  then obtain p ps where f: "Fields (TrimSpace (r ! i)) = p # ps"
    by (cases "Fields (TrimSpace (r ! i))") auto
  let ?J = "Join (ToUpper tbl p # ps) '' ''"
  from assms(2) True f have r': "r' = r[i := ?J]" and w: "w = []"
    by (simp_all add: firstname_body_def Let_def)
  have "list_all token (p # ps)"
    using Fields_tokens [of "TrimSpace (r ! i)"] f by simp
  then have toks: "list_all token (ToUpper tbl p # ps)"
    using token_ToUpper [OF assms(1)] by simp
  have trim: "TrimSpace ?J = ?J" using toks by (rule TrimSpace_Join)
  have ne: "?J \<noteq> []" using toks by (rule Join_nonempty)
  have fields: "Fields ?J = ToUpper tbl p # ps" using toks by (rule Fields_Join)
  have cell: "r' ! i = ?J" "i < length r'"
    using True r' by simp_all
  have "firstname_body tbl i r' = Some (r'[i := ?J], [])"
    using cell trim ne fields
    by (simp add: firstname_body_def Let_def ToUpper_idem [OF assms(1)])
  also have "r'[i := ?J] = r'"
    unfolding r' by simp
  finally show ?thesis using w by simp
qed

lemma rows_loop_again:
  assumes "\<And>r r' w. body r = Some (r', w) \<Longrightarrow> body r' = Some (r', []) \<and> w = []"
  shows "rows_loop body rs = Some (us, ws) \<Longrightarrow> rows_loop body us = Some (us, []) \<and> ws = []"
proof (induction rs arbitrary: us ws)
  case Nil
  then show ?case by simp
next
  case (Cons r rs)
  from Cons.prems obtain r' w us' ws' where
    r: "body r = Some (r', w)" and rest: "rows_loop body rs = Some (us', ws')"
    and us: "us = r' # us'" and ws: "ws = w @ ws'"
    by (auto split: option.splits)
  from assms [OF r] Cons.IH [OF rest] show ?case
    by (simp add: us ws)
qed

text \<open>
  Claim C7. The case table has the properties of \<open>case_table_ok\<close>. If the FirstName stage
  returns a table for an input table, then the stage applied to that table returns the
  same table again. The stage prints no warning in either run.
\<close>

theorem firstname_stage_idempotent:
  assumes "case_table_ok tbl"
    and "ProcessFirstName tbl records = Ok once w"
  shows "ProcessFirstName tbl once = Ok once [] \<and> w = []"
proof (cases records)
  case Nil
  with assms(2) show ?thesis by (simp add: ProcessFirstName_def)
next
  case (Cons header rest)
  with assms(2) obtain i where i: "find_first (\<lambda>h. EqualFold h ''FullName'') header = Some i"
    by (auto simp add: ProcessFirstName_def split: option.splits)
  with assms(2) Cons obtain updated where
    loop: "rows_loop (firstname_body tbl i) rest = Some (updated, w)"
    and once: "once = header # updated"
    by (auto simp add: ProcessFirstName_def run_stage_def split: option.splits)
  have "rows_loop (firstname_body tbl i) updated = Some (updated, []) \<and> w = []"
    using loop by (rule rows_loop_again [rotated]) (rule firstname_body_again [OF assms(1)])
  with i once show ?thesis
    by (simp add: ProcessFirstName_def run_stage_def)
qed

text \<open>
  An example: a case table with the one entry from U+00E9 to U+00C9, a first run on cells
  with spaces to trim and to squeeze, and the second run on its result.
\<close>

lemma demo_table_ok: "case_table_ok demo_table"
  unfolding case_table_ok_def unicode_ToUpper_def demo_table_def ascii_upper_def IsSpace_def
  by auto

lemma demo_run:
  "ProcessFirstName demo_table
     [[''FullName''],
      [[CHR ''j'', CHR ''o'', CHR ''s'', CHR 0xC3, CHR 0xA9, CHR '' '', CHR '' '',
        CHR ''m'', CHR ''a'', CHR '' '']],
      [''  ann lee''], [''  ''], []]
   = Ok [[''FullName''],
         [[CHR ''J'', CHR ''O'', CHR ''S'', CHR 0xC3, CHR 0x89, CHR '' '', CHR ''m'', CHR ''a'']],
         [''ANN lee''], [''  ''], []] []"
  by (simp add: ProcessFirstName_def run_stage_def firstname_body_def fold_eval utf8_eval
      trim_eval Fields_def ToUpper_def is_ascii_def upper_byte_def ascii_upper_def
      unicode_ToUpper_def demo_table_def EncodeRune_def char_of_def bit_Suc_0_iff)

theorem firstname_stage_idempotent_witness:
  "ProcessFirstName demo_table
     [[''FullName''],
      [[CHR ''J'', CHR ''O'', CHR ''S'', CHR 0xC3, CHR 0x89, CHR '' '', CHR ''m'', CHR ''a'']],
      [''ANN lee''], [''  ''], []]
   = Ok [[''FullName''],
         [[CHR ''J'', CHR ''O'', CHR ''S'', CHR 0xC3, CHR 0x89, CHR '' '', CHR ''m'', CHR ''a'']],
         [''ANN lee''], [''  ''], []] []"
  using firstname_stage_idempotent [OF demo_table_ok demo_run] by simp

section \<open>The Address stage is read-only\<close>

lemma address_rows:
  "rows_loop (address_body i) rest =
     Some (rest, concat (map (\<lambda>r. if i < length r \<and> \<not> ValidString (r ! i)
                                    then [InvalidAddress (r ! i)] else []) rest))"
  by (induction rest) (simp_all add: address_body_def Let_def)

text \<open>
  Claim C9. On a table whose header has an Address column (found without regard to case,
  at index \<open>i\<close>), the Address stage returns the very table it was given, cell for cell;
  all it does besides is print one warning for every data row that has a cell at index
  \<open>i\<close> which is not well-formed UTF-8, in the order of the rows.
\<close>

theorem address_read_only:
  assumes "records = header # rest"
    and "find_first (\<lambda>h. EqualFold h ''Address'') header = Some i"
  shows "ProcessAddress records =
    Ok records (concat (map (\<lambda>r. if i < length r \<and> \<not> ValidString (r ! i)
                                  then [InvalidAddress (r ! i)] else []) rest))"
  using assms by (simp add: ProcessAddress_def run_stage_def address_rows)

theorem address_read_only_witness:
  "ProcessAddress [[''Name'', ''address''], [''a'', [CHR 0xFF]], [''b''], [''c'', ''Main St'']]
     = Ok [[''Name'', ''address''], [''a'', [CHR 0xFF]], [''b''], [''c'', ''Main St'']]
          [InvalidAddress [CHR 0xFF]]"
proof -
  have h: "find_first (\<lambda>h. EqualFold h ''Address'') [''Name'', ''address''] = Some 1"
    by (simp add: fold_eval utf8_eval)
  have v1: "\<not> ValidString [CHR 0xFF]"
    by (simp add: utf8_eval)
  have v2: "ValidString ''Main St''"
    by (simp add: utf8_eval)
  show ?thesis
    using address_read_only [OF refl h, of "[[''a'', [CHR 0xFF]], [''b''], [''c'', ''Main St'']]"]
      v1 v2
    by simp
qed

end
